theory Spec2Isabelle
  imports
    Main
    "HOL-Library.Sublist"
    "HOL-Library.AList"
    "HOL-Library.Char_ord"
    "HOL-Library.List_Lexorder"
    "HOL-Library.Product_Lexorder"
begin

section \<open>Python strings\<close>

text \<open>
  A Python \<^verbatim>\<open>str\<close> is a sequence of code points. The model covers the strings whose
  code points lie in U+0000..U+00FF: such a string is a \<^typ>\<open>string\<close>, each character
  being the code point of its number (\<^term>\<open>of_char c\<close>). The character classes below
  are Python's on that range. Text with code points beyond U+00FF is outside the model.
\<close>

definition cp :: "char \<Rightarrow> nat" where
  "cp c = of_char c"

text \<open>\<^verbatim>\<open>str.isspace\<close> on one character, as \<^verbatim>\<open>str.split()\<close> uses it.\<close>

definition isspace_char :: "char \<Rightarrow> bool" where
  "isspace_char c \<longleftrightarrow>
     (9 \<le> cp c \<and> cp c \<le> 13) \<or> (28 \<le> cp c \<and> cp c \<le> 32) \<or> cp c = 133 \<or> cp c = 160"

text \<open>A decimal digit (\<^verbatim>\<open>\d\<close> of \<^verbatim>\<open>re\<close>, \<^verbatim>\<open>str.isdecimal\<close>): \<^verbatim>\<open>0\<close> to \<^verbatim>\<open>9\<close>.\<close>

definition isdecimal_char :: "char \<Rightarrow> bool" where
  "isdecimal_char c \<longleftrightarrow> 48 \<le> cp c \<and> cp c \<le> 57"

text \<open>
  \<^verbatim>\<open>str.isdigit\<close> on one character: the decimal digits and the superscript digits
  U+00B2, U+00B3 and U+00B9, which are digits but not decimal.
\<close>

definition isdigit_char :: "char \<Rightarrow> bool" where
  "isdigit_char c \<longleftrightarrow> isdecimal_char c \<or> cp c = 178 \<or> cp c = 179 \<or> cp c = 185"

definition isdigit :: "string \<Rightarrow> bool" where
  "isdigit s \<longleftrightarrow> s \<noteq> [] \<and> list_all isdigit_char s"

definition isdecimal :: "string \<Rightarrow> bool" where
  "isdecimal s \<longleftrightarrow> s \<noteq> [] \<and> list_all isdecimal_char s"

text \<open>
  \<^verbatim>\<open>str.lower\<close>: \<^verbatim>\<open>A\<close>..\<^verbatim>\<open>Z\<close> and the letters U+00C0..U+00DE (U+00D7, the
  multiplication sign, is no letter) move up by 32; every other character stays.
\<close>

definition lower_char :: "char \<Rightarrow> char" where
  "lower_char c =
     (if (65 \<le> cp c \<and> cp c \<le> 90) \<or> (192 \<le> cp c \<and> cp c \<le> 222 \<and> cp c \<noteq> 215)
      then char_of (cp c + 32) else c)"

definition lower :: "string \<Rightarrow> string" where
  "lower s = map lower_char s"

text \<open>The strings without U+00B5 and without U+00FF.\<close>

definition upper_in_range :: "string \<Rightarrow> bool" where
  "upper_in_range s \<longleftrightarrow> list_all (\<lambda>c. cp c \<noteq> 181 \<and> cp c \<noteq> 255) s"

text \<open>
  \<^verbatim>\<open>str.upper\<close>: \<^verbatim>\<open>a\<close>..\<^verbatim>\<open>z\<close> and the letters U+00E0..U+00FE (U+00F7, the division
  sign, is no letter) move down by 32, U+00DF becomes \<^verbatim>\<open>SS\<close>, and every other
  character stays, but for U+00B5 and U+00FF: their upper-case forms, U+039C and U+0178,
  lie beyond U+00FF. \<^const>\<open>upper_in_range\<close> says that a string has neither of the two;
  \<open>upper\<close> is Python's on such a string (the parser applies it to a letter that the
  pattern has matched), and \<open>upper_cell\<close> below covers the others.
\<close>

definition upper_char :: "char \<Rightarrow> string" where
  "upper_char c =
     (if (97 \<le> cp c \<and> cp c \<le> 122) \<or> (224 \<le> cp c \<and> cp c \<le> 254 \<and> cp c \<noteq> 247)
      then [char_of (cp c - 32)]
      else if cp c = 223 then ''SS'' else [c])"

definition upper :: "string \<Rightarrow> string" where
  "upper s = concat (map upper_char s)"

text \<open>
  The upper-case form of a string as a value that is compared with the strings of the
  model: when the form has a code point beyond U+00FF it is equal to none of them, as a
  missing value is, and it is \<^term>\<open>None\<close> here.
\<close>

definition upper_cell :: "string \<Rightarrow> string option" where
  "upper_cell s = (if upper_in_range s then Some (upper s) else None)"

text \<open>\<^verbatim>\<open>str.replace(old, new)\<close> for one-character \<^verbatim>\<open>old\<close> and \<^verbatim>\<open>new\<close>.\<close>

definition replace_char :: "char \<Rightarrow> char \<Rightarrow> string \<Rightarrow> string" where
  "replace_char old new s = map (\<lambda>c. if c = old then new else c) s"

text \<open>
  \<^verbatim>\<open>str.split()\<close> with no argument: the maximal runs of characters that are not
  whitespace, in order; never an empty token. The accumulator \<open>cur\<close> holds the token
  being read.
\<close>

fun split_acc :: "string \<Rightarrow> string \<Rightarrow> string list" where
  "split_acc cur [] = (if cur = [] then [] else [cur])"
| "split_acc cur (c # cs) =
     (if isspace_char c
      then (if cur = [] then split_acc [] cs else cur # split_acc [] cs)
      else split_acc (cur @ [c]) cs)"

definition split :: "string \<Rightarrow> string list" where
  "split s = split_acc [] s"

text \<open>
  A slice \<^verbatim>\<open>s[start:stop]\<close>: a negative bound counts from the end, and both bounds
  are clamped to the string, so a slice never raises.
\<close>

definition slice_bound :: "nat \<Rightarrow> int \<Rightarrow> nat" where
  "slice_bound n i = (if i < 0 then nat (int n + i) else min n (nat i))"

definition slice :: "int \<Rightarrow> int \<Rightarrow> 'a list \<Rightarrow> 'a list" where
  "slice start stop s =
     (let a = slice_bound (length s) start; b = slice_bound (length s) stop
      in take (b - a) (drop a s))"

subsection \<open>Integers and their text\<close>

definition digit_char :: "nat \<Rightarrow> char" where
  "digit_char d = char_of (48 + d)"

text \<open>The decimal digits of a natural number, without leading zeros (\<^verbatim>\<open>0\<close> for zero).\<close>

function digits :: "nat \<Rightarrow> string" where
  "digits n = (if n < 10 then [digit_char n] else digits (n div 10) @ [digit_char (n mod 10)])"
  by pat_completeness auto
termination
  by (relation "measure id") auto

declare digits.simps [simp del]

definition zero_pad :: "nat \<Rightarrow> string \<Rightarrow> string" where
  "zero_pad w s = replicate (w - length s) CHR ''0'' @ s"

text \<open>
  \<^verbatim>\<open>f"{n:0wd}"\<close>: the decimal digits padded with zeros on the left to width \<open>w\<close>;
  the padding is sign-aware, so the minus sign of a negative number comes first and
  counts in the width.
\<close>

definition format_0d :: "nat \<Rightarrow> int \<Rightarrow> string" where
  "format_0d w n =
     (if n < 0 then CHR ''-'' # zero_pad (w - 1) (digits (nat (- n)))
      else zero_pad w (digits (nat n)))"

definition digit_value :: "char \<Rightarrow> nat" where
  "digit_value c = cp c - 48"

definition decimal_value :: "string \<Rightarrow> nat" where
  "decimal_value s = foldl (\<lambda>a c. 10 * a + digit_value c) 0 s"

datatype error =
    FileNotFoundError
  | ValueError_int string
  | ValueError_no_township_range
  | KeyError string
  | RuntimeError_nothing_to_dissolve

text \<open>
  The most digits that \<^verbatim>\<open>int\<close> converts from a string: the interpreter's default
  (\<^verbatim>\<open>sys.get_int_max_str_digits()\<close>), which the program does not change. Every digit
  of the string counts, a leading zero too.
\<close>

definition int_max_str_digits :: nat where
  "int_max_str_digits = 4300"

definition int_converts :: "string \<Rightarrow> bool" where
  "int_converts s \<longleftrightarrow> isdecimal s \<and> length s \<le> int_max_str_digits"

text \<open>
  \<^verbatim>\<open>int(s)\<close> at its call sites, where \<open>s\<close> is a non-empty string of digit
  characters (a \<^verbatim>\<open>\d+\<close> group, or a token for which \<^verbatim>\<open>isdigit()\<close> holds): the
  value when every character is a decimal digit and the digits are no more than
  \<^const>\<open>int_max_str_digits\<close>, and otherwise a \<^verbatim>\<open>ValueError\<close>
  (\<^verbatim>\<open>invalid literal for int() with base 10\<close>, or
  \<^verbatim>\<open>Exceeds the limit (4300 digits) for integer string conversion\<close>).
\<close>

definition py_int :: "string \<Rightarrow> error + int" where
  "py_int s = (if int_converts s then Inr (int (decimal_value s)) else Inl (ValueError_int s))"

section \<open>Frames and series\<close>

text \<open>
  A \<^verbatim>\<open>GeoDataFrame\<close>: the names of its attribute columns, its rows in order, and its
  coordinate reference system. A row (a feature) gives a cell for every column name and
  carries a geometry. A cell is the text that \<^verbatim>\<open>astype(str)\<close> yields for it. A
  \<^verbatim>\<open>Series\<close> is the list of its values in row order; a missing value (\<^verbatim>\<open>NaN\<close>) of
  a series of strings is \<^term>\<open>None\<close>.
\<close>

record 'g feature =
  attrs :: "string \<Rightarrow> string"
  geometry :: 'g

record ('g, 'c) GeoDataFrame =
  columns :: "string list"
  features :: "'g feature list"
  crs :: 'c

definition PLSSID_FIELD_NAME :: string where
  "PLSSID_FIELD_NAME = ''PLSSID''"

definition FRSTDIVID_FIELD_NAME :: string where
  "FRSTDIVID_FIELD_NAME = ''FRSTDIVID''"

text \<open>\<^verbatim>\<open>gdf[name].astype(str)\<close>, for a column that exists.\<close>

definition column_str :: "string \<Rightarrow> ('g, 'c) GeoDataFrame \<Rightarrow> string list" where
  "column_str name gdf = map (\<lambda>f. attrs f name) (features gdf)"

text \<open>\<^verbatim>\<open>Series.str[a:b]\<close>: the slice of every value.\<close>

definition str_slice :: "int \<Rightarrow> int \<Rightarrow> string list \<Rightarrow> string list" where
  "str_slice a b ser = map (slice a b) ser"

text \<open>
  \<^verbatim>\<open>Series.str[i]\<close>: the character at index \<open>i\<close> of every value, and \<^verbatim>\<open>NaN\<close>
  where the value has no such index.
\<close>

definition get_char :: "int \<Rightarrow> string \<Rightarrow> string option" where
  "get_char i s =
     (if 0 \<le> i \<and> i < int (length s) then Some [s ! nat i]
      else if i < 0 \<and> - int (length s) \<le> i then Some [s ! nat (int (length s) + i)]
      else None)"

definition str_get :: "int \<Rightarrow> string list \<Rightarrow> string option list" where
  "str_get i ser = map (get_char i) ser"

text \<open>
  \<^verbatim>\<open>Series.str.upper()\<close>: \<^verbatim>\<open>NaN\<close> stays \<^verbatim>\<open>NaN\<close>. The values of the result are
  only compared with strings of the model, so a value beyond the model's range is
  \<^term>\<open>None\<close> as well (\<^const>\<open>upper_cell\<close>).
\<close>

definition str_upper :: "string option list \<Rightarrow> string option list" where
  "str_upper ser = map (\<lambda>x. Option.bind x upper_cell) ser"

text \<open>\<^verbatim>\<open>series == value\<close>, element by element; \<^verbatim>\<open>NaN\<close> equals nothing.\<close>

definition eq_str :: "string list \<Rightarrow> string \<Rightarrow> bool list" where
  "eq_str ser v = map (\<lambda>x. x = v) ser"

definition eq_opt :: "string option list \<Rightarrow> string \<Rightarrow> bool list" where
  "eq_opt ser v = map (\<lambda>x. x = Some v) ser"

text \<open>\<^verbatim>\<open>series.isin(values)\<close>.\<close>

definition isin :: "string list \<Rightarrow> string set \<Rightarrow> bool list" where
  "isin ser vs = map (\<lambda>x. x \<in> vs) ser"

text \<open>\<^verbatim>\<open>a & b\<close> and \<^verbatim>\<open>a | b\<close> on boolean series over the same index.\<close>

definition mask_and :: "bool list \<Rightarrow> bool list \<Rightarrow> bool list" where
  "mask_and a b = map2 (\<and>) a b"

definition mask_or :: "bool list \<Rightarrow> bool list \<Rightarrow> bool list" where
  "mask_or a b = map2 (\<or>) a b"

text \<open>\<^verbatim>\<open>pd.Series(False, index=gdf.index)\<close>.\<close>

definition all_false :: "('g, 'c) GeoDataFrame \<Rightarrow> bool list" where
  "all_false gdf = replicate (length (features gdf)) False"

text \<open>
  \<^verbatim>\<open>gdf[mask]\<close> for a boolean series over the frame's index: a new frame with the
  rows whose entry is true, in the frame's order, and the same columns and reference
  system.
\<close>

definition select_rows :: "('g, 'c) GeoDataFrame \<Rightarrow> bool list \<Rightarrow> ('g, 'c) GeoDataFrame" where
  "select_rows gdf msk = gdf\<lparr>features := map fst (filter snd (zip (features gdf) msk))\<rparr>"

section \<open>Selecting by township and range\<close>

type_synonym trs_key = "int \<times> string \<times> int \<times> string"

text \<open>
  The mask of one requested key in \<^verbatim>\<open>filter_by_plssid_trs\<close>: the four comparisons
  of the loop body, on the series taken from \<^verbatim>\<open>PLSSID\<close>.
\<close>

definition trs_mask :: "string list \<Rightarrow> trs_key \<Rightarrow> bool list" where
  "trs_mask pl key =
     (case key of (t_num, tdir, r_num, rdir) \<Rightarrow>
        let t_code3 = str_slice 4 7 pl;
            t_dir = str_upper (str_get 8 pl);
            r_code3 = str_slice 9 12 pl;
            r_dir = str_upper (str_get 13 pl);
            t_str = format_0d 3 t_num;
            r_str = format_0d 3 r_num
        in mask_and (mask_and (mask_and (eq_str t_code3 t_str) (eq_opt t_dir tdir))
                      (eq_str r_code3 r_str)) (eq_opt r_dir rdir))"

text \<open>The loop over \<^verbatim>\<open>trs_list\<close>: \<^verbatim>\<open>mask_total |= mask\<close> for every key in turn.\<close>

fun trs_loop :: "string list \<Rightarrow> trs_key list \<Rightarrow> bool list \<Rightarrow> bool list" where
  "trs_loop pl [] mask_total = mask_total"
| "trs_loop pl (key # keys) mask_total = trs_loop pl keys (mask_or mask_total (trs_mask pl key))"

definition filter_by_plssid_trs ::
  "('g, 'c) GeoDataFrame \<Rightarrow> trs_key list \<Rightarrow> error + ('g, 'c) GeoDataFrame" where
  "filter_by_plssid_trs gdf trs_list =
     (if PLSSID_FIELD_NAME \<notin> set (columns gdf) then Inl (KeyError PLSSID_FIELD_NAME)
      else
        let pl = column_str PLSSID_FIELD_NAME gdf;
            mask_total = trs_loop pl trs_list (all_false gdf)
        in Inr (select_rows gdf mask_total))"

text \<open>
  The fragments the matchers read from one identifier, and whether one identifier
  matches one key: the row-wise reading of \<^const>\<open>trs_mask\<close>.
\<close>

definition plssid_fragments :: "string \<Rightarrow> string \<times> string option \<times> string \<times> string option" where
  "plssid_fragments s =
     (slice 4 7 s, Option.bind (get_char 8 s) upper_cell,
      slice 9 12 s, Option.bind (get_char 13 s) upper_cell)"

definition trs_match :: "trs_key \<Rightarrow> string \<Rightarrow> bool" where
  "trs_match key s \<longleftrightarrow>
     (case key of (t_num, tdir, r_num, rdir) \<Rightarrow>
        plssid_fragments s = (format_0d 3 t_num, Some tdir, format_0d 3 r_num, Some rdir))"

section \<open>Selecting sections\<close>

type_synonym sections_dict = "(trs_key \<times> int list) list"

text \<open>
  A \<^verbatim>\<open>dict\<close> from keys to section lists is the list of its items in insertion
  order, as \<^verbatim>\<open>items()\<close> iterates them. The mask of one item in
  \<^verbatim>\<open>select_sections_by_trs_and_numbers\<close>: the comparisons of
  \<^const>\<open>trs_mask\<close> and the membership of \<^verbatim>\<open>FRSTDIVID[-3:-1]\<close> in the set of the
  two-digit codes of the requested numbers.
\<close>

definition sections_mask :: "string list \<Rightarrow> string list \<Rightarrow> trs_key \<Rightarrow> int list \<Rightarrow> bool list" where
  "sections_mask pl fr key sec_list =
     (case key of (t_num, tdir, r_num, rdir) \<Rightarrow>
        let t_code3 = str_slice 4 7 pl;
            t_dir = str_upper (str_get 8 pl);
            r_code3 = str_slice 9 12 pl;
            r_dir = str_upper (str_get 13 pl);
            sec_code2 = str_slice (- 3) (- 1) fr;
            t_str = format_0d 3 t_num;
            r_str = format_0d 3 r_num;
            sec_strs = set (map (format_0d 2) sec_list)
        in mask_and (mask_and (mask_and (mask_and (eq_str t_code3 t_str) (eq_opt t_dir tdir))
                      (eq_str r_code3 r_str)) (eq_opt r_dir rdir)) (isin sec_code2 sec_strs))"

fun sections_loop ::
  "string list \<Rightarrow> string list \<Rightarrow> sections_dict \<Rightarrow> bool list \<Rightarrow> bool list" where
  "sections_loop pl fr [] mask_total = mask_total"
| "sections_loop pl fr ((key, sec_list) # items) mask_total =
     (if sec_list = [] then sections_loop pl fr items mask_total
      else sections_loop pl fr items (mask_or mask_total (sections_mask pl fr key sec_list)))"

definition select_sections_by_trs_and_numbers ::
  "('g, 'c) GeoDataFrame \<Rightarrow> sections_dict \<Rightarrow> error + ('g, 'c) GeoDataFrame" where
  "select_sections_by_trs_and_numbers sections_gdf trs_sections =
     (if PLSSID_FIELD_NAME \<notin> set (columns sections_gdf) then Inl (KeyError PLSSID_FIELD_NAME)
      else if FRSTDIVID_FIELD_NAME \<notin> set (columns sections_gdf)
      then Inl (KeyError FRSTDIVID_FIELD_NAME)
      else
        let pl = column_str PLSSID_FIELD_NAME sections_gdf;
            fr = column_str FRSTDIVID_FIELD_NAME sections_gdf;
            mask_total = sections_loop pl fr trs_sections (all_false sections_gdf)
        in Inr (select_rows sections_gdf mask_total))"

text \<open>Whether one row matches one item: the row-wise reading of \<^const>\<open>sections_mask\<close>.\<close>

definition section_match :: "trs_key \<Rightarrow> int list \<Rightarrow> string \<Rightarrow> string \<Rightarrow> bool" where
  "section_match key sec_list s f \<longleftrightarrow>
     trs_match key s \<and> slice (- 3) (- 1) f \<in> set (map (format_0d 2) sec_list)"

section \<open>Parsing the configuration\<close>

text \<open>
  \<^verbatim>\<open>tr_pattern.match(tok)\<close> for \<^verbatim>\<open>^T(\d+)([NS])\-R(\d+)([EW])$\<close> with
  \<^verbatim>\<open>re.IGNORECASE\<close>: the four groups of a token that matches. A token holds no
  whitespace, so \<^verbatim>\<open>$\<close> is the end of the token.
\<close>

definition tr_pattern_match :: "string \<Rightarrow> (string \<times> string \<times> string \<times> string) option" where
  "tr_pattern_match tok =
     (case tok of
        [] \<Rightarrow> None
      | c0 # r0 \<Rightarrow>
          if lower_char c0 \<noteq> CHR ''t'' then None
          else
            let g1 = takeWhile isdecimal_char r0; r1 = dropWhile isdecimal_char r0 in
            if g1 = [] then None
            else (case r1 of
                c1 # c2 # c3 # r2 \<Rightarrow>
                  if lower_char c1 \<notin> {CHR ''n'', CHR ''s''} \<or> c2 \<noteq> CHR ''-''
                     \<or> lower_char c3 \<noteq> CHR ''r''
                  then None
                  else
                    let g3 = takeWhile isdecimal_char r2; r3 = dropWhile isdecimal_char r2 in
                    if g3 = [] then None
                    else (case r3 of
                        [c4] \<Rightarrow>
                          if lower_char c4 \<in> {CHR ''e'', CHR ''w''}
                          then Some (g1, [c1], g3, [c4]) else None
                      | _ \<Rightarrow> None)
              | _ \<Rightarrow> None))"

text \<open>The punctuation \<^verbatim>\<open>: , ; .\<close> becomes a space, then the text is split.\<close>

definition tokenize :: "string \<Rightarrow> string list" where
  "tokenize text =
     split (foldl (\<lambda>t ch. replace_char ch CHR '' '' t) text
              [CHR '':'', CHR '','', CHR '';'', CHR ''.''])"

text \<open>
  The inner loop, entered at index \<open>i\<close> with the key just read: zero or more pairs
  \<^verbatim>\<open>Section <num>\<close>. It returns the index where the scan goes on and the
  dictionary. \<^verbatim>\<open>trs_sections[key].append(sec_num)\<close> changes the list of a key that
  is in the dictionary (the outer loop has put it there).
\<close>

function section_pairs ::
  "string list \<Rightarrow> nat \<Rightarrow> trs_key \<Rightarrow> sections_dict \<Rightarrow> error + nat \<times> sections_dict" where
  "section_pairs tokens i key trs_sections =
     (if i < length tokens \<and> lower (tokens ! i) = ''section'' then
        if i + 1 < length tokens \<and> isdigit (tokens ! (i + 1)) then
          (case py_int (tokens ! (i + 1)) of
             Inl e \<Rightarrow> Inl e
           | Inr sec_num \<Rightarrow>
               section_pairs tokens (i + 2) key
                 (AList.map_entry key (\<lambda>l. l @ [sec_num]) trs_sections))
        else Inr (i + 1, trs_sections)
      else Inr (i, trs_sections))"
  by pat_completeness auto
termination
  by (relation "measure (\<lambda>(tokens, i, key, d). length tokens - i)") auto

declare section_pairs.simps [simp del]

lemma section_pairs_advances:
  "section_pairs tokens i key d = Inr (i', d') \<Longrightarrow> i \<le> i'"
proof (induction tokens i key d rule: section_pairs.induct)
  case (1 tokens i key d)
  show ?case using "1.prems" "1.IH"
    by (subst (asm) section_pairs.simps) (auto split: if_splits sum.splits)
qed

text \<open>
  The outer loop of \<^verbatim>\<open>parse_config_map\<close>, at index \<open>i\<close>, with the county and the
  dictionary read so far: the pair \<^verbatim>\<open>County <name>\<close> first, then a township and
  range token with its section pairs, and any other token is skipped.
\<close>

function scan ::
  "string list \<Rightarrow> nat \<Rightarrow> string option \<Rightarrow> sections_dict \<Rightarrow> error + string option \<times> sections_dict" where
  "scan tokens i county trs_sections =
     (if i < length tokens then
        if lower (tokens ! i) = ''county'' \<and> i + 1 < length tokens
        then scan tokens (i + 2) (Some (tokens ! (i + 1))) trs_sections
        else
          (case tr_pattern_match (tokens ! i) of
             Some (g1, g2, g3, g4) \<Rightarrow>
               (case py_int g1 of
                  Inl e \<Rightarrow> Inl e
                | Inr t_num \<Rightarrow>
                    (case py_int g3 of
                       Inl e \<Rightarrow> Inl e
                     | Inr r_num \<Rightarrow>
                         (case section_pairs tokens (i + 1) (t_num, upper g2, r_num, upper g4)
                                 (if map_of trs_sections (t_num, upper g2, r_num, upper g4) = None
                                  then trs_sections @ [((t_num, upper g2, r_num, upper g4), [])]
                                  else trs_sections) of
                            Inl e \<Rightarrow> Inl e
                          | Inr (i', trs_sections') \<Rightarrow> scan tokens i' county trs_sections')))
           | None \<Rightarrow> scan tokens (i + 1) county trs_sections)
      else Inr (county, trs_sections))"
  by pat_completeness auto
termination
  by (relation "measure (\<lambda>(tokens, i, county, d). length tokens - i)")
     (auto dest: section_pairs_advances)

declare scan.simps [simp del]

text \<open>
  \<^verbatim>\<open>parse_config_map\<close> on the file at \<^verbatim>\<open>config_path\<close>: \<^term>\<open>None\<close> when there is
  no such file, and its text otherwise. The result is the county, the sorted list of
  the keys, and the dictionary.
\<close>

definition parse_config_map ::
  "string option \<Rightarrow> error + string option \<times> trs_key list \<times> sections_dict" where
  "parse_config_map config =
     (case config of
        None \<Rightarrow> Inl FileNotFoundError
      | Some text \<Rightarrow>
          (case scan (tokenize text) 0 None [] of
             Inl e \<Rightarrow> Inl e
           | Inr (county, trs_sections) \<Rightarrow>
               if trs_sections = [] then Inl ValueError_no_township_range
               else Inr (county, sort (map fst trs_sections), trs_sections)))"

section \<open>The clip mask and the clip\<close>

text \<open>
  The geometry operations belong to the geometry library and are parameters here:
  \<open>unary_union\<close> unites geometries into one, \<open>parts\<close> gives the single parts of a
  geometry, \<open>read_file\<close> reads a layer, \<open>to_crs\<close> reprojects a frame and
  \<open>gpd_clip\<close> intersects a layer with a mask.
\<close>

text \<open>\<^verbatim>\<open>GeoDataFrame.empty\<close>: a frame always has its geometry column, so it is empty when it has no row.\<close>

definition is_empty :: "('g, 'c) GeoDataFrame \<Rightarrow> bool" where
  "is_empty gdf \<longleftrightarrow> features gdf = []"

text \<open>
  \<^verbatim>\<open>dissolve()\<close> with no grouping column: one row, with the union of all
  geometries. Its attributes are, column by column, the first value that is not
  missing; a row of the model has a value in every column, so they are the first row's.
\<close>

definition dissolve :: "('g list \<Rightarrow> 'g) \<Rightarrow> ('g, 'c) GeoDataFrame \<Rightarrow> ('g, 'c) GeoDataFrame" where
  "dissolve unary_union gdf =
     (case features gdf of
        [] \<Rightarrow> gdf
      | f # fs \<Rightarrow> gdf\<lparr>features := [f\<lparr>geometry := unary_union (map geometry (f # fs))\<rparr>]\<rparr>)"

text \<open>\<^verbatim>\<open>explode(index_parts=False)\<close>: one row for every part of every row's geometry.\<close>

definition explode :: "('g \<Rightarrow> 'g list) \<Rightarrow> ('g, 'c) GeoDataFrame \<Rightarrow> ('g, 'c) GeoDataFrame" where
  "explode parts gdf =
     gdf\<lparr>features := concat (map (\<lambda>f. map (\<lambda>g. f\<lparr>geometry := g\<rparr>) (parts (geometry f))) (features gdf))\<rparr>"

definition dissolve_townships_for_clip ::
  "('g list \<Rightarrow> 'g) \<Rightarrow> ('g \<Rightarrow> 'g list) \<Rightarrow> ('g, 'c) GeoDataFrame \<Rightarrow> error + ('g, 'c) GeoDataFrame" where
  "dissolve_townships_for_clip unary_union parts townships =
     (if is_empty townships then Inl RuntimeError_nothing_to_dissolve
      else
        let dissolved = dissolve unary_union townships;
            dissolved = explode parts dissolved
        in Inr dissolved)"

definition clip_parcels ::
  "(string \<Rightarrow> ('g, 'c) GeoDataFrame) \<Rightarrow>
   (('g, 'c) GeoDataFrame \<Rightarrow> 'c \<Rightarrow> ('g, 'c) GeoDataFrame) \<Rightarrow>
   (('g, 'c) GeoDataFrame \<Rightarrow> ('g, 'c) GeoDataFrame \<Rightarrow> ('g, 'c) GeoDataFrame) \<Rightarrow>
   string \<Rightarrow> ('g, 'c) GeoDataFrame \<Rightarrow> string \<Rightarrow> ('g, 'c) GeoDataFrame" where
  "clip_parcels read_file to_crs gpd_clip parcel_gpkg clip_gdf label =
     (let parcels = read_file parcel_gpkg in
      if is_empty parcels then parcels
      else
        let clip_gdf = (if crs clip_gdf \<noteq> crs parcels then to_crs clip_gdf (crs parcels) else clip_gdf)
        in gpd_clip parcels clip_gdf)"

section \<open>Properties\<close>

subsection \<open>Text of integers\<close>

lemma decimal_value_snoc: "decimal_value (s @ [c]) = 10 * decimal_value s + digit_value c"
  by (simp add: decimal_value_def)

lemma digit_value_digit_char: "d < 10 \<Longrightarrow> digit_value (digit_char d) = d"
  by (simp add: digit_value_def digit_char_def cp_def)

lemma decimal_value_digits: "decimal_value (digits n) = n"
proof (induction n rule: digits.induct)
  case (1 n)
  show ?case
  proof (cases "n < 10")
    case True
    then show ?thesis
      by (subst digits.simps) (simp add: decimal_value_def digit_value_digit_char)
  next
    case False
    then have "decimal_value (digits (n div 10)) = n div 10" using 1 by simp
    with False show ?thesis
      by (subst digits.simps) (simp add: decimal_value_snoc digit_value_digit_char)
  qed
qed

lemma isdecimal_digit_char: "d < 10 \<Longrightarrow> isdecimal_char (digit_char d)"
  by (simp add: isdecimal_char_def digit_char_def cp_def)

lemma digits_decimal: "list_all isdecimal_char (digits n) \<and> digits n \<noteq> []"
proof (induction n rule: digits.induct)
  case (1 n)
  show ?case
  proof (cases "n < 10")
    case True
    then show ?thesis by (subst (1 2) digits.simps) (simp add: isdecimal_digit_char)
  next
    case False
    with 1 show ?thesis by (subst (1 2) digits.simps) (simp add: isdecimal_digit_char)
  qed
qed

lemma decimal_value_zeros: "decimal_value (replicate k CHR ''0'' @ s) = decimal_value s"
proof -
  have "foldl (\<lambda>a c. 10 * a + digit_value c) 0 (replicate k CHR ''0'') = 0"
    by (induction k) (simp_all add: digit_value_def cp_def)
  then show ?thesis by (simp add: decimal_value_def)
qed

lemma decimal_value_zero_pad: "decimal_value (zero_pad w (digits n)) = n"
  by (simp add: zero_pad_def decimal_value_zeros decimal_value_digits)

lemma zero_pad_decimal: "list_all isdecimal_char (zero_pad w (digits n)) \<and> zero_pad w (digits n) \<noteq> []"
proof -
  have "isdecimal_char CHR ''0''" by (simp add: isdecimal_char_def cp_def)
  then have "list_all isdecimal_char (replicate k CHR ''0'')" for k
    by (induction k) simp_all
  with digits_decimal [of n] show ?thesis by (simp add: zero_pad_def)
qed

definition signed_value :: "string \<Rightarrow> int" where
  "signed_value s =
     (case s of [] \<Rightarrow> 0
      | c # r \<Rightarrow> if c = CHR ''-'' then - int (decimal_value r) else int (decimal_value s))"

lemma signed_value_format_0d: "signed_value (format_0d w n) = n"
proof (cases "n < 0")
  case True
  then show ?thesis by (simp add: format_0d_def signed_value_def decimal_value_zero_pad)
next
  case False
  obtain c r where cr: "zero_pad w (digits (nat n)) = c # r" "isdecimal_char c"
    using zero_pad_decimal [of w "nat n"] by (cases "zero_pad w (digits (nat n))") auto
  then have "c \<noteq> CHR ''-''" by (auto simp: isdecimal_char_def cp_def)
  with False cr decimal_value_zero_pad [of w "nat n"] show ?thesis
    by (simp add: format_0d_def signed_value_def)
qed

lemma format_0d_inject: "format_0d w a = format_0d w b \<longleftrightarrow> a = b"
  by (metis signed_value_format_0d)

lemma length_digits_ge3: "100 \<le> n \<Longrightarrow> 3 \<le> length (digits n)"
proof -
  assume n: "100 \<le> n"
  then have a: "\<not> n < 10" and b: "\<not> n div 10 < 10" by auto
  have "digits n = digits (n div 10 div 10) @ [digit_char (n div 10 mod 10)] @ [digit_char (n mod 10)]"
    using a b by (subst digits.simps, subst digits.simps) simp
  moreover have "digits (n div 10 div 10) \<noteq> []" using digits_decimal by blast
  ultimately show ?thesis by (cases "digits (n div 10 div 10)") auto
qed

lemma length_format_0d_2_ge3: "99 < s \<Longrightarrow> 3 \<le> length (format_0d 2 s)"
proof -
  assume "99 < s"
  then have "100 \<le> nat s" "\<not> s < 0" by auto
  then show ?thesis using length_digits_ge3 [of "nat s"]
    by (simp add: format_0d_def zero_pad_def)
qed

lemma length_slice_section: "length (slice (- 3) (- 1) f) \<le> 2"
  by (simp add: slice_def slice_bound_def Let_def)

subsection \<open>Masks row by row\<close>

lemma length_trs_mask: "length (trs_mask pl key) = length pl"
  by (cases key)
     (simp add: trs_mask_def Let_def mask_and_def eq_str_def eq_opt_def str_slice_def str_get_def str_upper_def)

lemma nth_trs_mask: "i < length pl \<Longrightarrow> trs_mask pl key ! i = trs_match key (pl ! i)"
  by (cases key)
     (simp add: trs_mask_def trs_match_def plssid_fragments_def Let_def mask_and_def eq_str_def eq_opt_def
        str_slice_def str_get_def str_upper_def)

lemma trs_mask_rowwise: "trs_mask pl key = map (trs_match key) pl"
  by (simp add: list_eq_iff_nth_eq length_trs_mask nth_trs_mask)

lemma mask_or_map:
  "length mt = length pl \<Longrightarrow> mask_or mt (map P pl) = map2 (\<lambda>m s. m \<or> P s) mt pl"
  by (simp add: mask_or_def list_eq_iff_nth_eq)

lemma trs_loop_rowwise:
  "length mt = length pl \<Longrightarrow>
   trs_loop pl keys mt = map2 (\<lambda>m s. m \<or> (\<exists>k \<in> set keys. trs_match k s)) mt pl"
proof (induction keys arbitrary: mt)
  case Nil
  then show ?case by (simp add: list_eq_iff_nth_eq)
next
  case (Cons k keys)
  let ?mt = "mask_or mt (trs_mask pl k)"
  have len: "length ?mt = length pl"
    using Cons.prems by (simp add: mask_or_def trs_mask_rowwise)
  have "trs_loop pl (k # keys) mt = trs_loop pl keys ?mt" by simp
  also have "\<dots> = map2 (\<lambda>m s. m \<or> (\<exists>k \<in> set keys. trs_match k s)) ?mt pl"
    by (rule Cons.IH [OF len])
  also have "\<dots> = map2 (\<lambda>m s. m \<or> (\<exists>k \<in> set (k # keys). trs_match k s)) mt pl"
    using Cons.prems by (auto simp: mask_or_def trs_mask_rowwise list_eq_iff_nth_eq)
  finally show ?case .
qed

lemma length_sections_mask: "length fr = length pl \<Longrightarrow> length (sections_mask pl fr key secs) = length pl"
  by (cases key)
     (simp add: sections_mask_def Let_def mask_and_def eq_str_def eq_opt_def isin_def str_slice_def
        str_get_def str_upper_def)

lemma nth_sections_mask:
  "length fr = length pl \<Longrightarrow> i < length pl \<Longrightarrow>
   sections_mask pl fr key secs ! i = section_match key secs (pl ! i) (fr ! i)"
  by (cases key)
     (simp add: sections_mask_def section_match_def trs_match_def plssid_fragments_def Let_def
        mask_and_def eq_str_def eq_opt_def isin_def str_slice_def str_get_def str_upper_def)

definition items_match :: "sections_dict \<Rightarrow> string \<Rightarrow> string \<Rightarrow> bool" where
  "items_match items s f \<longleftrightarrow> (\<exists>(k, secs) \<in> set items. secs \<noteq> [] \<and> section_match k secs s f)"

lemma items_match_Nil: "items_match [] s f = False"
  by (simp add: items_match_def)

lemma items_match_Cons:
  "items_match ((k, secs) # items) s f \<longleftrightarrow> (secs \<noteq> [] \<and> section_match k secs s f) \<or> items_match items s f"
  by (simp add: items_match_def)

lemma length_mask_or: "length a = length b \<Longrightarrow> length (mask_or a b) = length a"
  by (simp add: mask_or_def)

lemma nth_mask_or: "length a = length b \<Longrightarrow> i < length a \<Longrightarrow> mask_or a b ! i = (a ! i \<or> b ! i)"
  by (simp add: mask_or_def)

lemma sections_loop_rowwise:
  "length mt = length pl \<Longrightarrow> length fr = length pl \<Longrightarrow>
   length (sections_loop pl fr items mt) = length pl \<and>
   (\<forall>i < length pl. sections_loop pl fr items mt ! i = (mt ! i \<or> items_match items (pl ! i) (fr ! i)))"
proof (induction items arbitrary: mt)
  case Nil
  then show ?case by (simp add: items_match_Nil)
next
  case (Cons it items)
  obtain k secs where it: "it = (k, secs)" by (cases it)
  show ?case
  proof (cases "secs = []")
    case True
    then have "sections_loop pl fr (it # items) mt = sections_loop pl fr items mt"
      by (simp add: it)
    with Cons.IH [OF Cons.prems] True show ?thesis
      by (simp add: it items_match_Cons)
  next
    case False
    let ?m = "sections_mask pl fr k secs"
    have lm: "length mt = length ?m"
      using Cons.prems by (simp add: length_sections_mask)
    have len: "length (mask_or mt ?m) = length pl"
      using Cons.prems lm by (simp add: length_mask_or)
    have step: "sections_loop pl fr (it # items) mt = sections_loop pl fr items (mask_or mt ?m)"
      using False by (simp add: it)
    have nth: "mask_or mt ?m ! i = (mt ! i \<or> section_match k secs (pl ! i) (fr ! i))" if "i < length pl" for i
      using that Cons.prems lm by (simp add: nth_mask_or nth_sections_mask)
    from Cons.IH [OF len Cons.prems(2)] show ?thesis
      unfolding step using False by (simp add: it items_match_Cons nth)
  qed
qed

lemma select_rows_map: "map fst (filter snd (zip xs (map P xs))) = filter P xs"
  by (induction xs) auto

lemma select_rows_rowwise:
  "length msk = length (features gdf) \<Longrightarrow> \<forall>i < length (features gdf). msk ! i = P (features gdf ! i) \<Longrightarrow>
   select_rows gdf msk = gdf\<lparr>features := filter P (features gdf)\<rparr>"
proof -
  assume "length msk = length (features gdf)" "\<forall>i < length (features gdf). msk ! i = P (features gdf ! i)"
  then have "msk = map P (features gdf)" by (simp add: list_eq_iff_nth_eq)
  then show ?thesis by (simp add: select_rows_def select_rows_map)
qed

definition row_trs_match :: "trs_key list \<Rightarrow> 'g feature \<Rightarrow> bool" where
  "row_trs_match keys f \<longleftrightarrow> (\<exists>k \<in> set keys. trs_match k (attrs f PLSSID_FIELD_NAME))"

definition row_items_match :: "sections_dict \<Rightarrow> 'g feature \<Rightarrow> bool" where
  "row_items_match items f \<longleftrightarrow> items_match items (attrs f PLSSID_FIELD_NAME) (attrs f FRSTDIVID_FIELD_NAME)"

lemma filter_by_plssid_trs_rowwise:
  "PLSSID_FIELD_NAME \<in> set (columns gdf) \<Longrightarrow>
   filter_by_plssid_trs gdf keys = Inr (gdf\<lparr>features := filter (row_trs_match keys) (features gdf)\<rparr>)"
proof -
  assume c: "PLSSID_FIELD_NAME \<in> set (columns gdf)"
  let ?pl = "column_str PLSSID_FIELD_NAME gdf"
  have len: "length (all_false gdf) = length ?pl"
    by (simp add: all_false_def column_str_def)
  have "trs_loop ?pl keys (all_false gdf) = map (row_trs_match keys) (features gdf)"
    unfolding trs_loop_rowwise [OF len]
    by (simp add: all_false_def column_str_def row_trs_match_def list_eq_iff_nth_eq)
  with c show ?thesis
    by (simp add: filter_by_plssid_trs_def Let_def select_rows_def select_rows_map)
qed

lemma select_sections_rowwise:
  "PLSSID_FIELD_NAME \<in> set (columns gdf) \<Longrightarrow> FRSTDIVID_FIELD_NAME \<in> set (columns gdf) \<Longrightarrow>
   select_sections_by_trs_and_numbers gdf items =
     Inr (gdf\<lparr>features := filter (row_items_match items) (features gdf)\<rparr>)"
proof -
  assume c: "PLSSID_FIELD_NAME \<in> set (columns gdf)" "FRSTDIVID_FIELD_NAME \<in> set (columns gdf)"
  let ?pl = "column_str PLSSID_FIELD_NAME gdf" and ?fr = "column_str FRSTDIVID_FIELD_NAME gdf"
  have len: "length (all_false gdf) = length ?pl" "length ?fr = length ?pl"
    by (simp_all add: all_false_def column_str_def)
  have "sections_loop ?pl ?fr items (all_false gdf) = map (row_items_match items) (features gdf)"
    using sections_loop_rowwise [OF len, of items]
    by (simp add: all_false_def column_str_def row_items_match_def list_eq_iff_nth_eq)
  with c show ?thesis
    by (simp add: select_sections_by_trs_and_numbers_def Let_def select_rows_def select_rows_map)
qed

lemma short_never_matches: "length s < 14 \<Longrightarrow> \<not> trs_match key s"
  by (cases key) (simp add: trs_match_def plssid_fragments_def get_char_def)

lemma items_match_trs: "items_match items s f \<Longrightarrow> \<exists>k \<in> set (map fst items). trs_match k s"
proof (induction items)
  case Nil
  then show ?case by (simp add: items_match_Nil)
next
  case (Cons it items)
  obtain k secs where it: "it = (k, secs)" by (cases it)
  from Cons show ?case by (auto simp: it items_match_Cons section_match_def)
qed

lemma large_section_never_matches: "99 < n \<Longrightarrow> slice (- 3) (- 1) f \<noteq> format_0d 2 n"
  using length_format_0d_2_ge3 [of n] length_slice_section [of f] by auto

lemma section_match_le99:
  "section_match k (filter (\<lambda>n. n \<le> 99) secs) s f = section_match k secs s f"
proof -
  have "slice (- 3) (- 1) f \<in> set (map (format_0d 2) (filter (\<lambda>n. n \<le> 99) secs))
        \<longleftrightarrow> slice (- 3) (- 1) f \<in> set (map (format_0d 2) secs)" (is "?l \<longleftrightarrow> ?r")
  proof
    assume ?l then show ?r by auto
  next
    assume ?r
    then obtain n where n: "n \<in> set secs" "slice (- 3) (- 1) f = format_0d 2 n" by auto
    then have "n \<le> 99" using large_section_never_matches [of n f] by force
    with n show ?l by auto
  qed
  then show ?thesis by (simp only: section_match_def)
qed

lemma section_match_Nil: "\<not> section_match k [] s f"
  by (simp add: section_match_def)

lemma items_match_le99:
  "items_match (map (\<lambda>(k, secs). (k, filter (\<lambda>n. n \<le> 99) secs)) items) s f = items_match items s f"
proof (induction items)
  case Nil
  then show ?case by simp
next
  case (Cons it items)
  obtain k secs where it: "it = (k, secs)" by (cases it)
  show ?case
    using Cons.IH section_match_le99 [of k secs s f] section_match_Nil [of k s f]
    by (auto simp: it items_match_Cons)
qed

lemma items_match_nonempty:
  "items_match (filter (\<lambda>(k, secs). secs \<noteq> []) items) s f = items_match items s f"
proof (induction items)
  case Nil
  then show ?case by simp
next
  case (Cons it items)
  obtain k secs where it: "it = (k, secs)" by (cases it)
  from Cons.IH show ?case by (simp add: it items_match_Cons)
qed

lemma format_55: "format_0d 3 55 = ''055''" by code_simp
lemma format_66: "format_0d 3 66 = ''066''" by code_simp

lemma fragments_15:
  "plssid_fragments (p0 # p1 # p2 # p3 # t0 # t1 # t2 # z7 # td # r0 # r1 # r2 # z12 # rd # rest)
     = ([t0, t1, t2], upper_cell [td], [r0, r1, r2], upper_cell [rd])"
  by (simp add: plssid_fragments_def slice_def slice_bound_def get_char_def)

subsection \<open>The identifier of the scenario\<close>

text \<open>
  C1, as stated: the string \<^verbatim>\<open>CO0605500N0660W0\<close> has sixteen characters; the
  fixed offsets read the digits \<^verbatim>\<open>055\<close> at 4..6, but \<^verbatim>\<open>0\<close> at 8, \<^verbatim>\<open>N06\<close> at
  9..11 and \<^verbatim>\<open>0\<close> at 13, so the string does not decode to 55 N 66 W and does not
  match that key.
\<close>

theorem C1_counterexample:
  "plssid_fragments ''CO0605500N0660W0'' = (''055'', Some ''0'', ''N06'', Some ''0'')
   \<and> \<not> trs_match (55, ''N'', 66, ''W'') ''CO0605500N0660W0''"
  by (simp add: trs_match_def plssid_fragments_def slice_def slice_bound_def get_char_def
      upper_cell_def upper_in_range_def upper_def upper_char_def cp_def)

text \<open>
  C1, amended: an identifier with the digits \<^verbatim>\<open>055\<close> at 4..6, \<^verbatim>\<open>N\<close> at 8,
  \<^verbatim>\<open>066\<close> at 9..11 and \<^verbatim>\<open>W\<close> at 13 (such as the fifteen characters
  \<^verbatim>\<open>CO060550N0660W0\<close>) decodes to township 55, direction N, range 66, direction W:
  it yields these fragments and matches exactly the key (55, N, 66, W), whatever the
  four characters of the prefix, the fillers at 7 and 12 and the characters after 13.
\<close>

theorem plssid_decodes_55N_66W:
  "plssid_fragments (p0 # p1 # p2 # p3 # ''055'' @ z7 # ''N'' @ ''066'' @ z12 # ''W'' @ rest)
     = (''055'', Some ''N'', ''066'', Some ''W'')
   \<and> (trs_match (t_num, tdir, r_num, rdir)
         (p0 # p1 # p2 # p3 # ''055'' @ z7 # ''N'' @ ''066'' @ z12 # ''W'' @ rest)
       \<longleftrightarrow> t_num = 55 \<and> tdir = ''N'' \<and> r_num = 66 \<and> rdir = ''W'')"
proof -
  have f: "plssid_fragments (p0 # p1 # p2 # p3 # ''055'' @ z7 # ''N'' @ ''066'' @ z12 # ''W'' @ rest)
     = (''055'', Some ''N'', ''066'', Some ''W'')"
    by (simp add: fragments_15 upper_cell_def upper_in_range_def upper_def upper_char_def cp_def)
  have t: "format_0d 3 t_num = ''055'' \<longleftrightarrow> t_num = 55"
    using format_0d_inject [of 3 t_num 55] by (simp add: format_55)
  have r: "format_0d 3 r_num = ''066'' \<longleftrightarrow> r_num = 66"
    using format_0d_inject [of 3 r_num 66] by (simp add: format_66)
  show ?thesis
    unfolding trs_match_def f using t r by auto
qed

subsection \<open>Example frames\<close>

definition township_row :: "string \<Rightarrow> string \<Rightarrow> nat \<Rightarrow> nat feature" where
  "township_row plssid frstdivid g =
     \<lparr>attrs = (\<lambda>name. if name = ''PLSSID'' then plssid
                      else if name = ''FRSTDIVID'' then frstdivid else ''''),
      geometry = g\<rparr>"

definition example_layer :: "(nat, string) GeoDataFrame" where
  "example_layer =
     \<lparr>columns = [''PLSSID'', ''FRSTDIVID''],
      features =
        [township_row ''CO060550N0660W0'' ''CO060550N0660W0SN120'' 1,
         township_row ''CO06055'' ''CO06055'' 2,
         township_row ''CO060010S0020E0'' ''CO060010S0020E0SN010'' 3,
         township_row ''CO060550N0660W0'' ''CO060550N0660W0SN130'' 4],
      crs = ''EPSG:26913''\<rparr>"

lemma format_3_1: "format_0d 3 1 = ''001''" by code_simp
lemma format_3_2: "format_0d 3 2 = ''002''" by code_simp
lemma format_2_12: "format_0d 2 12 = ''12''" by code_simp
lemma format_2_120: "format_0d 2 120 = ''120''" by code_simp
lemma format_2_13: "format_0d 2 13 = ''13''" by code_simp

lemmas example_eval =
  example_layer_def township_row_def PLSSID_FIELD_NAME_def FRSTDIVID_FIELD_NAME_def
  row_trs_match_def row_items_match_def items_match_def section_match_def trs_match_def
  plssid_fragments_def slice_def slice_bound_def get_char_def upper_cell_def upper_in_range_def upper_def upper_char_def cp_def
  format_55 format_66 format_3_1 format_3_2 format_2_12 format_2_120

subsection \<open>Selection by keys\<close>





lemma row_items_match_nonempty:
  "row_items_match (filter (\<lambda>(k, secs). secs \<noteq> []) items) = row_items_match items"
  by (rule ext) (simp add: row_items_match_def items_match_nonempty)

lemma row_items_match_le99:
  "row_items_match (map (\<lambda>(k, secs). (k, filter (\<lambda>n. n \<le> 99) secs)) items) = row_items_match items"
  by (rule ext) (simp add: row_items_match_def items_match_le99)

lemma select_sections_nonempty_items:
  "select_sections_by_trs_and_numbers gdf (filter (\<lambda>(k, secs). secs \<noteq> []) items)
     = select_sections_by_trs_and_numbers gdf items"
proof (cases "PLSSID_FIELD_NAME \<in> set (columns gdf) \<and> FRSTDIVID_FIELD_NAME \<in> set (columns gdf)")
  case True
  then show ?thesis
    by (simp add: select_sections_rowwise row_items_match_nonempty)
next
  case False
  then show ?thesis by (auto simp: select_sections_by_trs_and_numbers_def)
qed

lemma filter_filter_implies:
  "(\<And>x. P x \<Longrightarrow> Q x) \<Longrightarrow> filter P (filter Q xs) = filter P xs"
  by (induction xs) auto

subsection \<open>Selection by keys and sections\<close>





subsection \<open>The configuration of the scenario\<close>

text \<open>
  C4: the text \<^verbatim>\<open>County Larimer\<close>, a line break, \<^verbatim>\<open>T33N-R19W Section 10 Section 12\<close>
  parses to the county \<^verbatim>\<open>Larimer\<close>, the one key (33, N, 19, W), and the section list
  10, 12 for that key.
\<close>

theorem parse_config_map_scenario:
  "parse_config_map (Some ''County Larimer\<newline>T33N-R19W Section 10 Section 12'')
     = Inr (Some ''Larimer'', [(33, ''N'', 19, ''W'')], [((33, ''N'', 19, ''W''), [10, 12])])"
  by code_simp

subsection \<open>The clip mask\<close>

text \<open>
  C7: \<^verbatim>\<open>dissolve_townships_for_clip\<close> fails, and then with the error of an empty
  selection, exactly when the input frame has no row; on a frame with rows it returns a
  frame whose geometries are the single parts of the union of all input geometries, in
  the input's reference system. The union and the decomposition are the library's.
\<close>

theorem dissolve_townships_for_clip_mask:
  "(dissolve_townships_for_clip unary_union parts townships = Inl RuntimeError_nothing_to_dissolve
      \<longleftrightarrow> features townships = [])
   \<and> ((\<exists>e. dissolve_townships_for_clip unary_union parts townships = Inl e)
      \<longleftrightarrow> features townships = [])
   \<and> (features townships \<noteq> [] \<longrightarrow>
        (\<exists>dissolved. dissolve_townships_for_clip unary_union parts townships = Inr dissolved
           \<and> map geometry (features dissolved)
               = parts (unary_union (map geometry (features townships)))
           \<and> crs dissolved = crs townships))"
  by (cases "features townships")
     (simp_all add: dissolve_townships_for_clip_def is_empty_def dissolve_def explode_def Let_def comp_def)

text \<open>
  Two townships; a geometry is the list of the tiles it covers, the union joins the
  lists, and every tile is a part.
\<close>

definition example_townships :: "(nat list, string) GeoDataFrame" where
  "example_townships =
     \<lparr>columns = [''PLSSID''],
      features = [\<lparr>attrs = (\<lambda>name. ''CO060550N0660W0''), geometry = [1]\<rparr>,
                  \<lparr>attrs = (\<lambda>name. ''CO060560N0660W0''), geometry = [2]\<rparr>],
      crs = ''EPSG:26913''\<rparr>"

theorem dissolve_townships_for_clip_mask_witness:
  "features example_townships \<noteq> []
   \<and> (\<exists>dissolved. dissolve_townships_for_clip concat (map (\<lambda>p. [p])) example_townships = Inr dissolved
         \<and> map geometry (features dissolved) = [[1], [2]]
         \<and> crs dissolved = ''EPSG:26913'')
   \<and> dissolve_townships_for_clip concat (map (\<lambda>p. [p])) (example_townships\<lparr>features := []\<rparr>)
       = Inl RuntimeError_nothing_to_dissolve"
proof -
  note t = dissolve_townships_for_clip_mask [of concat "map (\<lambda>p. [p])" example_townships]
  have n: "features example_townships \<noteq> []" by (simp add: example_townships_def)
  from mp [OF conjunct2 [OF conjunct2 [OF t]] n] obtain dissolved where
    d: "dissolve_townships_for_clip concat (map (\<lambda>p. [p])) example_townships = Inr dissolved"
    and g: "map geometry (features dissolved)
             = map (\<lambda>p. [p]) (concat (map geometry (features example_townships)))"
    and c: "crs dissolved = crs example_townships"
    by (elim exE conjE)
  from g have g': "map geometry (features dissolved) = [[1], [2]]"
    by (simp add: example_townships_def)
  from c have c': "crs dissolved = ''EPSG:26913''" by (simp add: example_townships_def)
  have x: "\<exists>dissolved. dissolve_townships_for_clip concat (map (\<lambda>p. [p])) example_townships = Inr dissolved
         \<and> map geometry (features dissolved) = [[1], [2]]
         \<and> crs dissolved = ''EPSG:26913''"
    using d g' c' by (intro exI [of _ dissolved] conjI)
  have e: "dissolve_townships_for_clip concat (map (\<lambda>p. [p])) (example_townships\<lparr>features := []\<rparr>)
       = Inl RuntimeError_nothing_to_dissolve"
    using dissolve_townships_for_clip_mask [of concat "map (\<lambda>p. [p])" "example_townships\<lparr>features := []\<rparr>"]
    by simp
  from n x e show ?thesis by (intro conjI)
qed

subsection \<open>The clip\<close>

text \<open>
  C8: in \<^verbatim>\<open>clip_parcels\<close> the layer given to the intersection is always the layer as
  read, never a reprojected one. When the layer has rows and the mask's reference
  system differs from the layer's, the mask given to the intersection is the mask
  reprojected to the layer's system; when the two systems agree it is the mask itself,
  and the result does not depend on the reprojection function, which is not applied.
  An empty layer is returned as read.
\<close>

theorem clip_parcels_reprojects_mask_only:
  "(is_empty (read_file parcel_gpkg) \<longrightarrow>
      clip_parcels read_file to_crs gpd_clip parcel_gpkg clip_gdf label = read_file parcel_gpkg)
   \<and> (\<not> is_empty (read_file parcel_gpkg) \<and> crs clip_gdf \<noteq> crs (read_file parcel_gpkg) \<longrightarrow>
        clip_parcels read_file to_crs gpd_clip parcel_gpkg clip_gdf label
          = gpd_clip (read_file parcel_gpkg) (to_crs clip_gdf (crs (read_file parcel_gpkg))))
   \<and> (\<not> is_empty (read_file parcel_gpkg) \<and> crs clip_gdf = crs (read_file parcel_gpkg) \<longrightarrow>
        clip_parcels read_file to_crs gpd_clip parcel_gpkg clip_gdf label
          = gpd_clip (read_file parcel_gpkg) clip_gdf
        \<and> clip_parcels read_file to_crs gpd_clip parcel_gpkg clip_gdf label
          = clip_parcels read_file other_to_crs gpd_clip parcel_gpkg clip_gdf label)"
  by (simp add: clip_parcels_def Let_def)

definition example_parcels :: "(nat list, string) GeoDataFrame" where
  "example_parcels =
     \<lparr>columns = [''PARCELNUM''],
      features = [\<lparr>attrs = (\<lambda>name. ''0001''), geometry = [1, 7]\<rparr>,
                  \<lparr>attrs = (\<lambda>name. ''0002''), geometry = [8]\<rparr>],
      crs = ''EPSG:2232''\<rparr>"

text \<open>Stand-ins for the library: reprojection relabels the frame, and the clip keeps of
  every parcel the parts that the mask has, and drops a parcel with no part left.\<close>

definition example_to_crs ::
  "(nat list, string) GeoDataFrame \<Rightarrow> string \<Rightarrow> (nat list, string) GeoDataFrame" where
  "example_to_crs gdf c = gdf\<lparr>crs := c\<rparr>"

definition example_clip ::
  "(nat list, string) GeoDataFrame \<Rightarrow> (nat list, string) GeoDataFrame \<Rightarrow> (nat list, string) GeoDataFrame" where
  "example_clip layer msk =
     (if crs msk \<noteq> crs layer then layer\<lparr>features := []\<rparr>
      else layer\<lparr>features :=
        filter (\<lambda>f. geometry f \<noteq> [])
          (map (\<lambda>f. f\<lparr>geometry := filter (\<lambda>p. p \<in> set (concat (map geometry (features msk)))) (geometry f)\<rparr>)
             (features layer))\<rparr>)"

text \<open>
  A mask in EPSG:26913 against parcels in EPSG:2232: the mask is reprojected, the
  parcels keep their system, and the first parcel keeps the tile it shares with the mask.
\<close>

theorem clip_parcels_reprojects_mask_only_witness:
  "\<not> is_empty ((\<lambda>path. example_parcels) ''parcels.gpkg'')
   \<and> crs example_townships \<noteq> crs ((\<lambda>path. example_parcels) ''parcels.gpkg'')
   \<and> clip_parcels (\<lambda>path. example_parcels) example_to_crs example_clip ''parcels.gpkg''
        example_townships ''Larimer''
      = example_clip example_parcels (example_to_crs example_townships ''EPSG:2232'')
   \<and> map geometry (features (clip_parcels (\<lambda>path. example_parcels) example_to_crs example_clip
        ''parcels.gpkg'' example_townships ''Larimer'')) = [[1]]
   \<and> crs (clip_parcels (\<lambda>path. example_parcels) example_to_crs example_clip
        ''parcels.gpkg'' example_townships ''Larimer'') = ''EPSG:2232''"
proof -
  let ?rf = "\<lambda>path :: string. example_parcels"
  note t = clip_parcels_reprojects_mask_only
      [of ?rf "''parcels.gpkg''" example_to_crs example_clip example_townships "''Larimer''"]
  have n: "\<not> is_empty (?rf ''parcels.gpkg'')"
    by (simp add: is_empty_def example_parcels_def)
  have d: "crs example_townships \<noteq> crs (?rf ''parcels.gpkg'')"
    by (simp add: example_parcels_def example_townships_def)
  from mp [OF conjunct1 [OF conjunct2 [OF t]] conjI [OF n d]]
  have r: "clip_parcels ?rf example_to_crs example_clip ''parcels.gpkg'' example_townships ''Larimer''
      = example_clip example_parcels (example_to_crs example_townships ''EPSG:2232'')"
    by (simp add: example_parcels_def)
  have g: "map geometry (features (example_clip example_parcels (example_to_crs example_townships ''EPSG:2232''))) = [[1]]"
    by (simp add: example_clip_def example_to_crs_def example_parcels_def example_townships_def)
  have c: "crs (example_clip example_parcels (example_to_crs example_townships ''EPSG:2232'')) = ''EPSG:2232''"
    by (simp add: example_clip_def example_to_crs_def example_parcels_def example_townships_def)
  from n d r g c show ?thesis by (simp only: simp_thms)
qed

section \<open>The scan, token by token\<close>

text \<open>
  The notions in which the properties of the parser are stated. The tokens outside a
  county's name: the scan reads \<^verbatim>\<open>County\<close> together with the token after it, whatever
  that token is, so the token after a \<^verbatim>\<open>County\<close> that the scan reads is a name and is
  never read as a key.
\<close>

fun outside_county :: "string list \<Rightarrow> string list" where
  "outside_county (t # n # ts) =
     (if lower t = ''county'' then outside_county ts else t # outside_county (n # ts))"
| "outside_county ts = ts"

text \<open>The key that a township and range token denotes.\<close>

definition token_key :: "string \<Rightarrow> trs_key option" where
  "token_key tok =
     (case tr_pattern_match tok of
        None \<Rightarrow> None
      | Some (g1, g2, g3, g4) \<Rightarrow>
          Some (int (decimal_value g1), upper g2, int (decimal_value g3), upper g4))"

text \<open>
  The numbers of the pairs \<^verbatim>\<open>Section <num>\<close> at the head of a token sequence, and
  the tokens after them.
\<close>

fun section_run :: "string list \<Rightarrow> int list \<times> string list" where
  "section_run (s # n # ts) =
     (if lower s = ''section'' then
        (if isdigit n then (int (decimal_value n) # fst (section_run ts), snd (section_run ts))
         else ([], n # ts))
      else ([], s # n # ts))"
| "section_run [s] = (if lower s = ''section'' then ([], []) else ([], [s]))"
| "section_run [] = ([], [])"

lemma length_section_run: "length (snd (section_run ts)) \<le> length ts"
  by (induction ts rule: section_run.induct) auto

text \<open>
  The keys that the scan reads, in order, every appearance of a key apart, each with the
  numbers of its own section pairs.
\<close>

function occurrences :: "string list \<Rightarrow> (trs_key \<times> int list) list" where
  "occurrences [] = []"
| "occurrences (t # ts) =
     (if lower t = ''county'' \<and> ts \<noteq> [] then occurrences (tl ts)
      else (case token_key t of
              Some k \<Rightarrow> (k, fst (section_run ts)) # occurrences (snd (section_run ts))
            | None \<Rightarrow> occurrences ts))"
  by pat_completeness auto
termination
  by (relation "measure length") (auto simp: length_section_run less_Suc_eq_le)

text \<open>One appearance of a key put into the dictionary, as the loop body does.\<close>

definition add_occurrence :: "sections_dict \<Rightarrow> trs_key \<times> int list \<Rightarrow> sections_dict" where
  "add_occurrence d e =
     (case e of (k, run) \<Rightarrow>
        AList.map_entry k (\<lambda>l. l @ run) (if map_of d k = None then d @ [(k, [])] else d))"

text \<open>
  Every string that the scan may give to \<^verbatim>\<open>int\<close> is one that \<^verbatim>\<open>int\<close> converts: a
  token for which \<^verbatim>\<open>isdigit()\<close> holds has no superscript digit and no more digits
  than \<^const>\<open>int_max_str_digits\<close>, and neither number of a township and range token
  has more digits than that.
\<close>

definition convertible_tokens :: "string list \<Rightarrow> bool" where
  "convertible_tokens tokens \<longleftrightarrow>
     (\<forall>t \<in> set tokens.
        (isdigit t \<longrightarrow> int_converts t)
        \<and> (case tr_pattern_match t of
             None \<Rightarrow> True
           | Some (g1, g2, g3, g4) \<Rightarrow> int_converts g1 \<and> int_converts g3))"

lemma map_entry_ident: "AList.map_entry k (\<lambda>l. l) d = d"
  by (induction d) auto

lemma map_entry_twice:
  "AList.map_entry k f (AList.map_entry k g d) = AList.map_entry k (\<lambda>l. f (g l)) d"
  by (induction d) auto

lemma section_pairs_run:
  "section_pairs tokens j key d = Inr (i', d') \<Longrightarrow> j \<le> length tokens \<Longrightarrow>
   drop i' tokens = snd (section_run (drop j tokens))
   \<and> d' = AList.map_entry key (\<lambda>l. l @ fst (section_run (drop j tokens))) d"
proof (induction tokens j key d rule: section_pairs.induct)
  case (1 tokens i key d)
  show ?case
  proof (cases "i < length tokens \<and> lower (tokens ! i) = ''section''")
    case False
    have "section_pairs tokens i key d = Inr (i, d)"
      by (subst section_pairs.simps) (simp only: False if_False simp_thms)
    with "1.prems" have r: "i' = i" "d' = d" by simp_all
    have "section_run (drop i tokens) = ([], drop i tokens)"
    proof (cases "i < length tokens")
      case True
      with False have ns: "lower (tokens ! i) \<noteq> ''section''" by simp
      from True have dr: "drop i tokens = tokens ! i # drop (Suc i) tokens"
        by (simp add: Cons_nth_drop_Suc)
      show ?thesis using ns unfolding dr by (cases "drop (Suc i) tokens") simp_all
    next
      case False
      then show ?thesis by simp
    qed
    with r show ?thesis by (simp add: map_entry_ident)
  next
    case sec: True
    then have dr: "drop i tokens = tokens ! i # drop (Suc i) tokens"
      by (simp add: Cons_nth_drop_Suc)
    show ?thesis
    proof (cases "i + 1 < length tokens \<and> isdigit (tokens ! (i + 1))")
      case False
      have "section_pairs tokens i key d = Inr (i + 1, d)"
        by (subst section_pairs.simps) (simp only: sec if_True False if_False simp_thms)
      with "1.prems" have r: "i' = i + 1" "d' = d" by simp_all
      have "section_run (drop i tokens) = ([], drop (Suc i) tokens)"
      proof (cases "i + 1 < length tokens")
        case True
        then have dr2: "drop (Suc i) tokens = tokens ! (Suc i) # drop (Suc (Suc i)) tokens"
          by (simp add: Cons_nth_drop_Suc)
        from True False have "\<not> isdigit (tokens ! (Suc i))" by simp
        with sec show ?thesis unfolding dr dr2 by simp
      next
        case False
        then have "drop (Suc i) tokens = []" by simp
        with sec show ?thesis unfolding dr by simp
      qed
      with r show ?thesis by (simp add: map_entry_ident)
    next
      case dig: True
      then have dr2: "drop (Suc i) tokens = tokens ! (Suc i) # drop (Suc (Suc i)) tokens"
        by (simp add: Cons_nth_drop_Suc)
      have unf: "section_pairs tokens i key d =
          (case py_int (tokens ! (i + 1)) of
             Inl e \<Rightarrow> Inl e
           | Inr sec_num \<Rightarrow>
               section_pairs tokens (i + 2) key (AList.map_entry key (\<lambda>l. l @ [sec_num]) d))"
        by (subst section_pairs.simps) (simp only: sec dig if_True simp_thms)
      from "1.prems"(1) obtain sec_num where
        pi: "py_int (tokens ! (i + 1)) = Inr sec_num"
        and rec: "section_pairs tokens (i + 2) key (AList.map_entry key (\<lambda>l. l @ [sec_num]) d) = Inr (i', d')"
        unfolding unf by (cases "py_int (tokens ! (i + 1))") simp_all
      from pi have sn: "sec_num = int (decimal_value (tokens ! (Suc i)))"
        by (auto simp: py_int_def split: if_splits)
      from dig have le: "i + 2 \<le> length tokens" by simp
      from "1.IH" [OF sec dig pi rec le]
      have ih: "drop i' tokens = snd (section_run (drop (i + 2) tokens))"
        "d' = AList.map_entry key (\<lambda>l. l @ fst (section_run (drop (i + 2) tokens)))
                (AList.map_entry key (\<lambda>l. l @ [sec_num]) d)"
        by simp_all
      have sr: "section_run (drop i tokens)
          = (sec_num # fst (section_run (drop (i + 2) tokens)), snd (section_run (drop (i + 2) tokens)))"
        using sec dig unfolding dr dr2 by (simp add: sn)
      show ?thesis using ih by (simp add: sr map_entry_twice)
    qed
  qed
qed

lemma isdecimal_takeWhile: "takeWhile isdecimal_char xs \<noteq> [] \<Longrightarrow> isdecimal (takeWhile isdecimal_char xs)"
  by (auto simp: isdecimal_def list_all_iff dest: set_takeWhileD)

lemma tr_pattern_match_groups:
  assumes "tr_pattern_match tok = Some (g1, g2, g3, g4)"
  shows "isdecimal g1 \<and> isdecimal g3 \<and> (\<exists>c r. tok = c # r \<and> lower_char c = CHR ''t'')"
proof -
  from assms obtain c0 r0 where tok: "tok = c0 # r0"
    by (cases tok) (simp_all add: tr_pattern_match_def)
  from assms have t: "lower_char c0 = CHR ''t''"
    unfolding tok tr_pattern_match_def by (simp split: if_splits)
  from assms t have g1: "g1 = takeWhile isdecimal_char r0" "takeWhile isdecimal_char r0 \<noteq> []"
    unfolding tok tr_pattern_match_def
    by (auto simp: Let_def split: if_splits list.splits)
  from assms t g1(2) obtain r2 where g3: "g3 = takeWhile isdecimal_char r2" "takeWhile isdecimal_char r2 \<noteq> []"
    unfolding tok tr_pattern_match_def
    by (auto simp: Let_def split: if_splits list.splits)
  from g1 g3 t tok show ?thesis by (simp add: isdecimal_takeWhile)
qed

lemma py_int_converts: "int_converts s \<Longrightarrow> py_int s = Inr (int (decimal_value s))"
  by (simp add: py_int_def)

lemma py_int_fails: "\<not> int_converts s \<Longrightarrow> py_int s = Inl (ValueError_int s)"
  by (simp add: py_int_def)

lemma scan_end: "\<not> i < length tokens \<Longrightarrow> scan tokens i c d = Inr (c, d)"
  by (subst scan.simps) simp

lemma scan_county:
  "i < length tokens \<Longrightarrow> lower (tokens ! i) = ''county'' \<Longrightarrow> i + 1 < length tokens \<Longrightarrow>
   scan tokens i c d = scan tokens (i + 2) (Some (tokens ! (i + 1))) d"
  by (subst scan.simps) simp

lemma scan_skip:
  "i < length tokens \<Longrightarrow> \<not> (lower (tokens ! i) = ''county'' \<and> i + 1 < length tokens) \<Longrightarrow>
   tr_pattern_match (tokens ! i) = None \<Longrightarrow>
   scan tokens i c d = scan tokens (i + 1) c d"
  by (subst scan.simps) (simp only: if_True if_False option.case simp_thms)

lemma token_key_Some:
  "tr_pattern_match tok = Some (g1, g2, g3, g4) \<Longrightarrow>
   token_key tok = Some (int (decimal_value g1), upper g2, int (decimal_value g3), upper g4)"
  by (simp add: token_key_def)

lemma token_key_None: "tr_pattern_match tok = None \<Longrightarrow> token_key tok = None"
  by (simp add: token_key_def)

lemma scan_match:
  assumes "i < length tokens" and "\<not> (lower (tokens ! i) = ''county'' \<and> i + 1 < length tokens)"
    and "tr_pattern_match (tokens ! i) = Some (g1, g2, g3, g4)"
  shows "scan tokens i c d =
     (case py_int g1 of
        Inl e \<Rightarrow> Inl e
      | Inr t_num \<Rightarrow>
          (case py_int g3 of
             Inl e \<Rightarrow> Inl e
           | Inr r_num \<Rightarrow>
               (case section_pairs tokens (i + 1) (t_num, upper g2, r_num, upper g4)
                       (if map_of d (t_num, upper g2, r_num, upper g4) = None
                        then d @ [((t_num, upper g2, r_num, upper g4), [])]
                        else d) of
                  Inl e \<Rightarrow> Inl e
                | Inr (i', d') \<Rightarrow> scan tokens i' c d')))"
  by (subst scan.simps)
     (simp only: assms if_True if_False option.case prod.case simp_thms)

lemma scan_Inr_converts:
  assumes "i < length tokens" and "\<not> (lower (tokens ! i) = ''county'' \<and> i + 1 < length tokens)"
    and m: "tr_pattern_match (tokens ! i) = Some (g1, g2, g3, g4)"
    and r: "scan tokens i c d = Inr res"
  shows "int_converts g1 \<and> int_converts g3"
proof -
  note u = scan_match [OF assms(1,2) m, of c d]
  show ?thesis
  proof (cases "int_converts g1")
    case False
    then have "py_int g1 = Inl (ValueError_int g1)" by (rule py_int_fails)
    with u r show ?thesis by simp
  next
    case g1: True
    show ?thesis
    proof (cases "int_converts g3")
      case False
      then have "py_int g3 = Inl (ValueError_int g3)" by (rule py_int_fails)
      moreover from g1 have "py_int g1 = Inr (int (decimal_value g1))" by (rule py_int_converts)
      ultimately show ?thesis using u r by simp
    next
      case True
      with g1 show ?thesis by simp
    qed
  qed
qed

lemma scan_key:
  assumes "i < length tokens" and "\<not> (lower (tokens ! i) = ''county'' \<and> i + 1 < length tokens)"
    and "token_key (tokens ! i) = Some key"
    and m: "tr_pattern_match (tokens ! i) = Some (g1, g2, g3, g4)"
    and cv: "int_converts g1" "int_converts g3"
  shows "scan tokens i c d =
     (case section_pairs tokens (i + 1) key (if map_of d key = None then d @ [(key, [])] else d) of
        Inl e \<Rightarrow> Inl e
      | Inr (i', d') \<Rightarrow> scan tokens i' c d')"
proof -
  from assms(3) m have
    k: "key = (int (decimal_value g1), upper g2, int (decimal_value g3), upper g4)"
    by (simp add: token_key_def)
  from cv have p: "py_int g1 = Inr (int (decimal_value g1))"
    "py_int g3 = Inr (int (decimal_value g3))"
    by (simp_all add: py_int_converts)
  show ?thesis
    by (subst scan.simps)
       (simp only: assms(1,2) m p k if_True if_False option.case sum.case prod.case simp_thms)
qed

lemma tl_drop_Suc: "tl (drop n xs) = drop (Suc n) xs"
  by (simp add: drop_Suc tl_drop)

lemma scan_occurrences:
  "scan tokens i c d = Inr (c', d') \<Longrightarrow>
   d' = foldl add_occurrence d (occurrences (drop i tokens))"
proof (induction tokens i c d rule: scan.induct)
  case (1 tokens i county d)
  show ?case
  proof (cases "i < length tokens")
    case False
    with "1.prems" show ?thesis by (simp add: scan_end)
  next
    case lt: True
    then have dr: "drop i tokens = tokens ! i # drop (Suc i) tokens"
      by (simp add: Cons_nth_drop_Suc)
    have ne: "drop (Suc i) tokens \<noteq> [] \<longleftrightarrow> i + 1 < length tokens" by auto
    show ?thesis
    proof (cases "lower (tokens ! i) = ''county'' \<and> i + 1 < length tokens")
      case cty: True
      with lt "1.prems" have "scan tokens (i + 2) (Some (tokens ! (i + 1))) d = Inr (c', d')"
        by (simp add: scan_county)
      from "1.IH"(1) [OF lt cty this]
      have "d' = foldl add_occurrence d (occurrences (drop (i + 2) tokens))" .
      moreover have "occurrences (drop i tokens) = occurrences (drop (i + 2) tokens)"
        unfolding dr using cty by (simp add: tl_drop_Suc)
      ultimately show ?thesis by simp
    next
      case nc: False
      then have nc': "\<not> (lower (tokens ! i) = ''county'' \<and> drop (Suc i) tokens \<noteq> [])"
        by auto
      show ?thesis
      proof (cases "token_key (tokens ! i)")
        case None
        then have m: "tr_pattern_match (tokens ! i) = None"
          by (auto simp: token_key_def split: option.splits)
        from "1.prems" have "scan tokens (i + 1) county d = Inr (c', d')"
          by (simp only: scan_skip [OF lt nc m])
        from "1.IH"(2) [OF lt nc m this]
        have "d' = foldl add_occurrence d (occurrences (drop (i + 1) tokens))" .
        moreover have "occurrences (drop i tokens) = occurrences (drop (i + 1) tokens)"
          unfolding dr using nc' None by (simp only: occurrences.simps if_False option.case Suc_eq_plus1)
        ultimately show ?thesis by simp
      next
        case (Some key)
        then obtain g1 g2 g3 g4 where
          m: "tr_pattern_match (tokens ! i) = Some (g1, g2, g3, g4)"
          and k: "key = (int (decimal_value g1), upper g2, int (decimal_value g3), upper g4)"
          by (auto simp: token_key_def split: option.splits)
        from scan_Inr_converts [OF lt nc m "1.prems"]
        have cv: "int_converts g1" "int_converts g3" by simp_all
        then have p: "py_int g1 = Inr (int (decimal_value g1))"
          "py_int g3 = Inr (int (decimal_value g3))"
          by (simp_all add: py_int_converts)
        let ?d0 = "if map_of d key = None then d @ [(key, [])] else d"
        from "1.prems" have
          "(case section_pairs tokens (i + 1) key ?d0 of
              Inl e \<Rightarrow> Inl e
            | Inr (i', d') \<Rightarrow> scan tokens i' county d') = Inr (c', d')"
          by (simp only: scan_key [OF lt nc Some m cv])
        then obtain i'' d'' where
          sp: "section_pairs tokens (i + 1) key ?d0 = Inr (i'', d'')"
          and sc: "scan tokens i'' county d'' = Inr (c', d')"
          by (cases "section_pairs tokens (i + 1) key ?d0") auto
        from lt have le: "i + 1 \<le> length tokens" by simp
        from section_pairs_run [OF sp le]
        have run: "drop i'' tokens = snd (section_run (drop (i + 1) tokens))"
          "d'' = AList.map_entry key (\<lambda>l. l @ fst (section_run (drop (i + 1) tokens))) ?d0"
          by simp_all
        from "1.IH"(3) [OF lt nc m refl refl refl p sp [unfolded k] refl sc]
        have "d' = foldl add_occurrence d'' (occurrences (drop i'' tokens))" .
        moreover have "occurrences (drop i tokens)
            = (key, fst (section_run (drop (i + 1) tokens))) # occurrences (drop i'' tokens)"
          unfolding dr run(1) using nc' Some
          by (simp only: occurrences.simps if_False option.case Suc_eq_plus1)
        moreover have "d'' = add_occurrence d (key, fst (section_run (drop (i + 1) tokens)))"
          unfolding run(2) by (simp add: add_occurrence_def)
        ultimately show ?thesis by simp
      qed
    qed
  qed
qed

lemma section_pairs_total:
  "convertible_tokens tokens \<Longrightarrow> \<exists>r. section_pairs tokens j key d = Inr r"
proof (induction tokens j key d rule: section_pairs.induct)
  case (1 tokens i key d)
  show ?case
  proof (cases "i < length tokens \<and> lower (tokens ! i) = ''section''")
    case False
    have "section_pairs tokens i key d = Inr (i, d)"
      by (subst section_pairs.simps) (simp only: False if_False simp_thms)
    then show ?thesis by simp
  next
    case sec: True
    show ?thesis
    proof (cases "i + 1 < length tokens \<and> isdigit (tokens ! (i + 1))")
      case False
      have "section_pairs tokens i key d = Inr (i + 1, d)"
        by (subst section_pairs.simps) (simp only: sec if_True False if_False simp_thms)
      then show ?thesis by simp
    next
      case dig: True
      then have "tokens ! (i + 1) \<in> set tokens" by simp
      with dig "1.prems" have "int_converts (tokens ! (i + 1))"
        unfolding convertible_tokens_def by blast
      then have pi: "py_int (tokens ! (i + 1)) = Inr (int (decimal_value (tokens ! (i + 1))))"
        by (rule py_int_converts)
      have "section_pairs tokens i key d =
          section_pairs tokens (i + 2) key
            (AList.map_entry key (\<lambda>l. l @ [int (decimal_value (tokens ! (i + 1)))]) d)"
        by (subst section_pairs.simps) (simp only: sec dig pi if_True sum.case simp_thms)
      with "1.IH" [OF sec dig pi "1.prems"] show ?thesis by simp
    qed
  qed
qed

lemma scan_total:
  "convertible_tokens tokens \<Longrightarrow> \<exists>r. scan tokens i c d = Inr r"
proof (induction tokens i c d rule: scan.induct)
  case (1 tokens i county d)
  show ?case
  proof (cases "i < length tokens")
    case False
    then show ?thesis by (simp add: scan_end)
  next
    case lt: True
    show ?thesis
    proof (cases "lower (tokens ! i) = ''county'' \<and> i + 1 < length tokens")
      case cty: True
      with lt "1.IH"(1) [OF lt cty "1.prems"] show ?thesis by (simp add: scan_county)
    next
      case nc: False
      show ?thesis
      proof (cases "token_key (tokens ! i)")
        case None
        then have m: "tr_pattern_match (tokens ! i) = None"
          by (auto simp: token_key_def split: option.splits)
        from "1.IH"(2) [OF lt nc m "1.prems"] show ?thesis
          by (simp only: scan_skip [OF lt nc m])
      next
        case (Some key)
        then obtain g1 g2 g3 g4 where
          m: "tr_pattern_match (tokens ! i) = Some (g1, g2, g3, g4)"
          and k: "key = (int (decimal_value g1), upper g2, int (decimal_value g3), upper g4)"
          by (auto simp: token_key_def split: option.splits)
        from lt have "tokens ! i \<in> set tokens" by simp
        with "1.prems" have
          "case tr_pattern_match (tokens ! i) of
             None \<Rightarrow> True
           | Some (g1, g2, g3, g4) \<Rightarrow> int_converts g1 \<and> int_converts g3"
          unfolding convertible_tokens_def by blast
        then have cv: "int_converts g1" "int_converts g3" by (simp_all add: m)
        then have p: "py_int g1 = Inr (int (decimal_value g1))"
          "py_int g3 = Inr (int (decimal_value g3))"
          by (simp_all add: py_int_converts)
        let ?d0 = "if map_of d key = None then d @ [(key, [])] else d"
        from section_pairs_total [OF "1.prems"] obtain i'' d'' where
          sp: "section_pairs tokens (i + 1) key ?d0 = Inr (i'', d'')"
          by (metis surj_pair)
        from "1.IH"(3) [OF lt nc m refl refl refl p sp [unfolded k] refl "1.prems"]
        obtain r where "scan tokens i'' county d'' = Inr r" by blast
        with sp show ?thesis
          by (simp add: scan_key [OF lt nc Some m cv])
      qed
    qed
  qed
qed

text \<open>The keys that the tokens of a sequence denote, and the section numbers of one key
  over all its appearances.\<close>

definition token_keys :: "string list \<Rightarrow> trs_key list" where
  "token_keys tokens = List.map_filter token_key tokens"

definition sections_of :: "trs_key \<Rightarrow> (trs_key \<times> int list) list \<Rightarrow> int list" where
  "sections_of k occs = concat (map snd (filter (\<lambda>e. fst e = k) occs))"

lemma map_fst_map_entry: "map fst (AList.map_entry k f d) = map fst d"
  by (induction d) auto

lemma map_fst_add_occurrence:
  "map fst (add_occurrence d (k, run)) = (if k \<in> set (map fst d) then map fst d else map fst d @ [k])"
  by (auto simp: add_occurrence_def map_fst_map_entry map_of_eq_None_iff)

lemma keys_foldl_add_occurrence:
  "fst ` set (foldl add_occurrence d occs) = fst ` set d \<union> fst ` set occs"
proof (induction occs arbitrary: d)
  case Nil
  then show ?case by simp
next
  case (Cons e occs)
  obtain k run where e: "e = (k, run)" by (cases e)
  have "set (map fst (add_occurrence d (k, run))) = insert k (set (map fst d))"
    unfolding map_fst_add_occurrence by auto
  then have h: "fst ` set (add_occurrence d (k, run)) = insert k (fst ` set d)" by simp
  show ?case unfolding e foldl_Cons Cons.IH h by auto
qed

lemma distinct_foldl_add_occurrence:
  "distinct (map fst d) \<Longrightarrow> distinct (map fst (foldl add_occurrence d occs))"
proof (induction occs arbitrary: d)
  case Nil
  then show ?case by simp
next
  case (Cons e occs)
  obtain k run where e: "e = (k, run)" by (cases e)
  from Cons.prems have "distinct (map fst (add_occurrence d (k, run)))"
    by (simp add: map_fst_add_occurrence)
  then show ?case by (simp add: Cons.IH e)
qed

lemma map_of_add_occurrence:
  "map_of (add_occurrence d (k, run)) k' =
     (if k' = k then Some ((case map_of d k of None \<Rightarrow> [] | Some l \<Rightarrow> l) @ run) else map_of d k')"
  by (auto simp: add_occurrence_def map_of_map_entry map_of_append map_add_def split: option.splits)

lemma map_of_foldl_add_occurrence:
  "map_of (foldl add_occurrence d occs) k =
     (if k \<in> fst ` set occs \<or> map_of d k \<noteq> None
      then Some ((case map_of d k of None \<Rightarrow> [] | Some l \<Rightarrow> l) @ sections_of k occs)
      else None)"
proof (induction occs arbitrary: d)
  case Nil
  then show ?case by (auto simp: sections_of_def)
next
  case (Cons e occs)
  obtain k' run where e: "e = (k', run)" by (cases e)
  show ?case
    unfolding e foldl_Cons Cons.IH
    by (auto simp: map_of_add_occurrence sections_of_def split: option.splits)
qed

subsection \<open>Tokens and keys\<close>

lemma token_key_first:
  "token_key tok = Some k \<Longrightarrow> \<exists>c r. tok = c # r \<and> lower_char c = CHR ''t''"
proof -
  assume "token_key tok = Some k"
  then obtain g1 g2 g3 g4 where "tr_pattern_match tok = Some (g1, g2, g3, g4)"
    by (auto simp: token_key_def split: option.splits)
  from tr_pattern_match_groups [OF this] show ?thesis by blast
qed

lemma section_no_key: "lower s = ''section'' \<Longrightarrow> token_key s = None"
proof (rule ccontr)
  assume s: "lower s = ''section''" and "token_key s \<noteq> None"
  then obtain k where "token_key s = Some k" by blast
  from token_key_first [OF this] obtain c r where "s = c # r" "lower_char c = CHR ''t''" by blast
  with s show False by (simp add: lower_def)
qed

lemma county_no_key: "lower s = ''county'' \<Longrightarrow> token_key s = None"
proof (rule ccontr)
  assume s: "lower s = ''county''" and "token_key s \<noteq> None"
  then obtain k where "token_key s = Some k" by blast
  from token_key_first [OF this] obtain c r where "s = c # r" "lower_char c = CHR ''t''" by blast
  with s show False by (simp add: lower_def)
qed

lemma lower_digit_char: "isdigit_char c \<Longrightarrow> lower_char c = c"
  by (auto simp: isdigit_char_def isdecimal_char_def lower_char_def)

lemma isdigit_char_not_letter: "isdigit_char c \<Longrightarrow> c \<noteq> CHR ''t'' \<and> c \<noteq> CHR ''c''"
  by (auto simp: isdigit_char_def isdecimal_char_def cp_def)

lemma digit_no_key: "isdigit n \<Longrightarrow> token_key n = None"
proof (rule ccontr)
  assume n: "isdigit n" and "token_key n \<noteq> None"
  then obtain k where "token_key n = Some k" by blast
  from token_key_first [OF this] obtain c r where cr: "n = c # r" "lower_char c = CHR ''t''" by blast
  with n have "isdigit_char c" by (simp add: isdigit_def)
  with cr lower_digit_char [of c] isdigit_char_not_letter [of c] show False by simp
qed

lemma digit_not_county: "isdigit n \<Longrightarrow> lower n \<noteq> ''county''"
proof
  assume n: "isdigit n" and l: "lower n = ''county''"
  then obtain c r where cr: "n = c # r" by (cases n) (simp_all add: lower_def)
  with n have "isdigit_char c" by (simp add: isdigit_def)
  with cr l lower_digit_char [of c] isdigit_char_not_letter [of c] show False
    by (simp add: lower_def)
qed

lemma outside_county_Cons:
  "\<not> (lower t = ''county'' \<and> ts \<noteq> []) \<Longrightarrow> outside_county (t # ts) = t # outside_county ts"
  by (cases ts) auto

lemma token_keys_Cons:
  "token_keys (t # ts) = (case token_key t of None \<Rightarrow> token_keys ts | Some k \<Rightarrow> k # token_keys ts)"
  by (cases "token_key t") (simp_all add: token_keys_def List.map_filter_simps)

lemma token_keys_section_run:
  "token_keys (outside_county (snd (section_run ts))) = token_keys (outside_county ts)"
proof (induction ts rule: section_run.induct)
  case (1 s n ts)
  show ?case
  proof (cases "lower s = ''section''")
    case False
    then show ?thesis by simp
  next
    case sec: True
    then have s: "outside_county (s # n # ts) = s # outside_county (n # ts)"
      by (simp add: outside_county_Cons)
    show ?thesis
    proof (cases "isdigit n")
      case False
      with sec show ?thesis by (simp add: token_keys_Cons section_no_key)
    next
      case True
      then have n: "outside_county (n # ts) = n # outside_county ts"
        using digit_not_county by (simp add: outside_county_Cons)
      from sec True have "snd (section_run (s # n # ts)) = snd (section_run ts)" by simp
      with "1.IH" [OF sec True] show ?thesis
        by (simp only: s n token_keys_Cons section_no_key [OF sec] digit_no_key [OF True] option.case)
    qed
  qed
next
  case (2 s)
  then show ?case by (auto simp: token_keys_Cons section_no_key)
next
  case 3
  then show ?case by simp
qed

lemma keys_occurrences:
  "map fst (occurrences ts) = token_keys (outside_county ts)"
proof (induction ts rule: occurrences.induct)
  case 1
  then show ?case by (simp add: token_keys_def List.map_filter_simps)
next
  case (2 t ts)
  show ?case
  proof (cases "lower t = ''county'' \<and> ts \<noteq> []")
    case True
    then obtain n ts' where ts: "ts = n # ts'" by (cases ts) auto
    with True "2.IH"(1) [OF True] show ?thesis by simp
  next
    case nc: False
    then have oc: "outside_county (t # ts) = t # outside_county ts"
      by (rule outside_county_Cons)
    show ?thesis
    proof (cases "token_key t")
      case None
      with nc "2.IH"(2) [OF nc None] show ?thesis
        by (simp only: oc occurrences.simps if_False option.case token_keys_Cons)
    next
      case (Some k)
      with nc "2.IH"(3) [OF nc Some] show ?thesis
        by (simp only: oc occurrences.simps if_False option.case token_keys_Cons list.map fst_conv
              token_keys_section_run)
    qed
  qed
qed

lemma parse_config_map_scan:
  "parse_config_map (Some text) =
     (case scan (tokenize text) 0 None [] of
        Inl e \<Rightarrow> Inl e
      | Inr (county, trs_sections) \<Rightarrow>
          if trs_sections = [] then Inl ValueError_no_township_range
          else Inr (county, sort (map fst trs_sections), trs_sections))"
  by (simp add: parse_config_map_def)

lemma scan_dictionary:
  assumes "scan tokens 0 None [] = Inr (c, d)"
  shows "d = foldl add_occurrence [] (occurrences tokens)"
    and "distinct (map fst d)"
    and "set (map fst d) = set (token_keys (outside_county tokens))"
    and "d = [] \<longleftrightarrow> token_keys (outside_county tokens) = []"
    and "k \<in> set (map fst d) \<Longrightarrow> map_of d k = Some (sections_of k (occurrences tokens))"
proof -
  from scan_occurrences [OF assms] show d: "d = foldl add_occurrence [] (occurrences tokens)"
    by simp
  show "distinct (map fst d)"
    unfolding d by (rule distinct_foldl_add_occurrence) simp
  have "fst ` set d = fst ` set (occurrences tokens)"
    unfolding d keys_foldl_add_occurrence by simp
  also have "\<dots> = set (map fst (occurrences tokens))" by simp
  finally show s: "set (map fst d) = set (token_keys (outside_county tokens))"
    by (simp add: keys_occurrences)
  from s show "d = [] \<longleftrightarrow> token_keys (outside_county tokens) = []"
    by (metis list.map_disc_iff set_empty)
  assume "k \<in> set (map fst d)"
  with s have "k \<in> fst ` set (occurrences tokens)"
    by (simp add: keys_occurrences [symmetric])
  then show "map_of d k = Some (sections_of k (occurrences tokens))"
    unfolding d map_of_foldl_add_occurrence by simp
qed

text \<open>
  A superscript digit after \<^verbatim>\<open>Section\<close> passes \<^verbatim>\<open>isdigit()\<close> and makes \<^verbatim>\<open>int\<close>
  raise, and so does a number of more than 4300 digits, after \<^verbatim>\<open>Section\<close> or in a
  township and range token. The two theorems on the parser below are about the texts
  in which \<^verbatim>\<open>int\<close> converts what the scan may give it
  (\<^const>\<open>convertible_tokens\<close>).
\<close>

lemma superscript_digit_raises:
  "parse_config_map (Some (''T1N-R1W Section '' @ [CHR 0xB2]))
     = Inl (ValueError_int [CHR 0xB2])"
  by code_simp

lemma digit_limit_raises:
  "py_int (replicate 4301 CHR ''0'') = Inl (ValueError_int (replicate 4301 CHR ''0''))
   \<and> py_int (replicate 4300 CHR ''0'') = Inr 0"
proof -
  have "\<not> int_converts (replicate 4301 CHR ''0'')"
    by (simp add: int_converts_def int_max_str_digits_def)
  moreover have "int_converts (replicate 4300 CHR ''0'')"
    by (simp add: int_converts_def int_max_str_digits_def isdecimal_def isdecimal_char_def cp_def
        list_all_iff)
  moreover have "decimal_value (replicate 4300 CHR ''0'') = 0"
    using decimal_value_zeros [of 4300 "[]"] by (simp add: decimal_value_def)
  ultimately show ?thesis by (simp add: py_int_converts py_int_fails)
qed

subsection \<open>The keys of a configuration\<close>

text \<open>
  C5, as stated: in \<^verbatim>\<open>County T1N-R1W T2N-R2W\<close> two distinct tokens match the
  pattern, and the request has one key: the first token is read as the county's name.
\<close>

theorem C5_counterexample:
  "parse_config_map (Some ''County T1N-R1W T2N-R2W'')
     = Inr (Some ''T1N-R1W'', [(2, ''N'', 2, ''W'')], [((2, ''N'', 2, ''W''), [])])
   \<and> remdups (filter (\<lambda>t. tr_pattern_match t \<noteq> None) (tokenize ''County T1N-R1W T2N-R2W''))
       = [''T1N-R1W'', ''T2N-R2W'']"
  by code_simp

text \<open>
  C6, as stated: \<^verbatim>\<open>County T1N-R1W\<close> holds a township and range token, and the parser
  fails with the configuration error: the token is read as the county's name.
\<close>

theorem C6_counterexample:
  "parse_config_map (Some ''County T1N-R1W'') = Inl ValueError_no_township_range
   \<and> filter (\<lambda>t. tr_pattern_match t \<noteq> None) (tokenize ''County T1N-R1W'') = [''T1N-R1W'']"
  by code_simp

text \<open>
  C5, amended: for a text whose digit tokens are decimal and that has at least one
  township and range token outside a county's name, the parser returns a request; its
  dictionary has one entry for every key that such a token denotes and no other entry,
  so it has as many entries as these tokens denote distinct keys; the key list is the
  sorted list of these keys; and the section list of a key is the sequence of the
  section numbers of all its appearances, in the order of the text.
\<close>

theorem parse_config_map_key_set:
  assumes "convertible_tokens (tokenize text)"
    and "token_keys (outside_county (tokenize text)) \<noteq> []"
  shows "\<exists>county trs_list trs_sections.
      parse_config_map (Some text) = Inr (county, trs_list, trs_sections)
      \<and> set (map fst trs_sections) = set (token_keys (outside_county (tokenize text)))
      \<and> distinct (map fst trs_sections)
      \<and> length trs_sections = length (remdups (token_keys (outside_county (tokenize text))))
      \<and> set trs_list = set (token_keys (outside_county (tokenize text)))
      \<and> distinct trs_list \<and> sorted trs_list
      \<and> length trs_list = length (remdups (token_keys (outside_county (tokenize text))))
      \<and> (\<forall>k \<in> set (map fst trs_sections).
            map_of trs_sections k = Some (sections_of k (occurrences (tokenize text))))"
proof -
  let ?keys = "token_keys (outside_county (tokenize text))"
  from scan_total [OF assms(1)] obtain c d where sc: "scan (tokenize text) 0 None [] = Inr (c, d)"
    by (metis surj_pair)
  note f = scan_dictionary [OF sc]
  from f(4) assms(2) have ne: "d \<noteq> []" by simp
  have r: "parse_config_map (Some text) = Inr (c, sort (map fst d), d)"
    using ne by (simp add: parse_config_map_scan sc)
  have l: "length d = length (remdups ?keys)"
  proof -
    have "length d = length (map fst d)" by simp
    also have "\<dots> = card (set (map fst d))" using f(2) by (simp only: distinct_card)
    also have "\<dots> = length (remdups ?keys)" by (simp only: f(3) length_remdups_card_conv)
    finally show ?thesis .
  qed
  have a: "\<forall>k \<in> set (map fst d). map_of d k = Some (sections_of k (occurrences (tokenize text)))"
    using f(5) by blast
  have s: "set (sort (map fst d)) = set ?keys" "distinct (sort (map fst d))"
    "sorted (sort (map fst d))" "length (sort (map fst d)) = length (remdups ?keys)"
    using f(2) f(3) l by simp_all
  from r f(3) f(2) l s a show ?thesis
    by (intro exI [of _ c] exI [of _ "sort (map fst d)"] exI [of _ d] conjI)
qed

text \<open>
  C6, amended: for a text whose digit tokens are decimal, the parser fails with the
  configuration error exactly when no township and range token stands outside a county's
  name, and it returns a request exactly when one does.
\<close>

theorem parse_config_map_fails_iff_no_key:
  assumes "convertible_tokens (tokenize text)"
  shows "(parse_config_map (Some text) = Inl ValueError_no_township_range
            \<longleftrightarrow> token_keys (outside_county (tokenize text)) = [])
       \<and> ((\<exists>r. parse_config_map (Some text) = Inr r)
            \<longleftrightarrow> token_keys (outside_county (tokenize text)) \<noteq> [])"
proof -
  from scan_total [OF assms] obtain c d where sc: "scan (tokenize text) 0 None [] = Inr (c, d)"
    by (metis surj_pair)
  note e = scan_dictionary(4) [OF sc]
  show ?thesis
  proof (cases "d = []")
    case True
    then have "parse_config_map (Some text) = Inl ValueError_no_township_range"
      by (simp add: parse_config_map_scan sc)
    with True e show ?thesis by simp
  next
    case False
    then have "parse_config_map (Some text) = Inr (c, sort (map fst d), d)"
      by (simp add: parse_config_map_scan sc)
    with False e show ?thesis by simp
  qed
qed

text \<open>
  Two spellings of one key and a second key: the dictionary has two entries, and the
  sections 5 and 6 are in one list.
\<close>

theorem parse_config_map_key_set_witness:
  "convertible_tokens (tokenize ''County Weld T1N-R1W Section 5 t01n-r001w section 6 T2S-R3E'')
   \<and> token_keys (outside_county (tokenize ''County Weld T1N-R1W Section 5 t01n-r001w section 6 T2S-R3E''))
       = [(1, ''N'', 1, ''W''), (1, ''N'', 1, ''W''), (2, ''S'', 3, ''E'')]
   \<and> parse_config_map (Some ''County Weld T1N-R1W Section 5 t01n-r001w section 6 T2S-R3E'')
       = Inr (Some ''Weld'', [(1, ''N'', 1, ''W''), (2, ''S'', 3, ''E'')],
              [((1, ''N'', 1, ''W''), [5, 6]), ((2, ''S'', 3, ''E''), [])])
   \<and> (\<exists>county trs_list trs_sections.
         parse_config_map (Some ''County Weld T1N-R1W Section 5 t01n-r001w section 6 T2S-R3E'')
           = Inr (county, trs_list, trs_sections)
         \<and> length trs_sections = 2 \<and> length trs_list = 2 \<and> distinct (map fst trs_sections))"
proof -
  let ?text = "''County Weld T1N-R1W Section 5 t01n-r001w section 6 T2S-R3E''"
  have h: "convertible_tokens (tokenize ?text)" by code_simp
  have k: "token_keys (outside_county (tokenize ?text))
       = [(1, ''N'', 1, ''W''), (1, ''N'', 1, ''W''), (2, ''S'', 3, ''E'')]"
    by code_simp
  then have n: "token_keys (outside_county (tokenize ?text)) \<noteq> []" by simp
  have v: "parse_config_map (Some ?text)
       = Inr (Some ''Weld'', [(1, ''N'', 1, ''W''), (2, ''S'', 3, ''E'')],
              [((1, ''N'', 1, ''W''), [5, 6]), ((2, ''S'', 3, ''E''), [])])"
    by code_simp
  from parse_config_map_key_set [OF h n] obtain county trs_list trs_sections where
    r: "parse_config_map (Some ?text) = Inr (county, trs_list, trs_sections)"
    and d: "distinct (map fst trs_sections)"
    and l: "length trs_sections = length (remdups (token_keys (outside_county (tokenize ?text))))"
    and l': "length trs_list = length (remdups (token_keys (outside_county (tokenize ?text))))"
    by (elim exE conjE)
  have "length (remdups (token_keys (outside_county (tokenize ?text)))) = 2"
    unfolding k by simp
  with l l' have "length trs_sections = 2" "length trs_list = 2" by simp_all
  with r d have x: "\<exists>county trs_list trs_sections.
         parse_config_map (Some ?text) = Inr (county, trs_list, trs_sections)
         \<and> length trs_sections = 2 \<and> length trs_list = 2 \<and> distinct (map fst trs_sections)"
    by (intro exI [of _ county] exI [of _ trs_list] exI [of _ trs_sections] conjI)
  from h k v x show ?thesis by (intro conjI)
qed

theorem parse_config_map_fails_iff_no_key_witness:
  "convertible_tokens (tokenize ''County Weld; Section 4'')
   \<and> token_keys (outside_county (tokenize ''County Weld; Section 4'')) = []
   \<and> parse_config_map (Some ''County Weld; Section 4'') = Inl ValueError_no_township_range
   \<and> convertible_tokens (tokenize ''County Weld, T7N-R66W.'')
   \<and> token_keys (outside_county (tokenize ''County Weld, T7N-R66W.'')) = [(7, ''N'', 66, ''W'')]
   \<and> (\<exists>r. parse_config_map (Some ''County Weld, T7N-R66W.'') = Inr r)"
proof -
  let ?a = "''County Weld; Section 4''" and ?b = "''County Weld, T7N-R66W.''"
  have ha: "convertible_tokens (tokenize ?a)" by code_simp
  have hb: "convertible_tokens (tokenize ?b)" by code_simp
  have ka: "token_keys (outside_county (tokenize ?a)) = []" by code_simp
  have kb: "token_keys (outside_county (tokenize ?b)) = [(7, ''N'', 66, ''W'')]" by code_simp
  from parse_config_map_fails_iff_no_key [OF ha] ka
  have a: "parse_config_map (Some ?a) = Inl ValueError_no_township_range" by simp
  from parse_config_map_fails_iff_no_key [OF hb] kb
  have b: "\<exists>r. parse_config_map (Some ?b) = Inr r" by simp
  from ha ka a hb kb b show ?thesis by (intro conjI)
qed

end
